theory Spec2Isabelle
  imports Complex_Main "HOL-Library.Sublist"
begin

section \<open>Strings of the host language\<close>

text \<open>
  \<^verbatim>\<open>String.prototype.includes\<close>: does \<open>sub\<close> occur in \<open>s\<close> as a contiguous run.
\<close>

fun includesStr :: "string \<Rightarrow> string \<Rightarrow> bool" where
  "includesStr [] sub = (sub = [])"
| "includesStr (c # cs) sub = (prefix sub (c # cs) \<or> includesStr cs sub)"

text \<open>
  \<^verbatim>\<open>String.prototype.toLowerCase\<close>, on the letters A to Z. The only use in the source is
  a search for the ASCII phrase "two point" in the lowered text, and no character outside
  A to Z lowers to a string that contains an ASCII letter next to its neighbours, so the
  other characters are left as they are.
\<close>

definition lowerChar :: "char \<Rightarrow> char" where
  "lowerChar c =
     (case map_of (zip ''ABCDEFGHIJKLMNOPQRSTUVWXYZ'' ''abcdefghijklmnopqrstuvwxyz'') c of
        None \<Rightarrow> c
      | Some l \<Rightarrow> l)"

definition toLowerCase :: "string \<Rightarrow> string" where
  "toLowerCase s = map lowerChar s"

section \<open>The box score's scoring summary: processEvents\<close>

text \<open>
  \<^verbatim>\<open>type ScoringSummaryEvent = { hide: boolean; quarter: Quarter; t: 0 | 1; text: string;
  time: number; type: string }\<close>. The side \<^verbatim>\<open>t: 0 | 1\<close> indexes the two-element running score.
  The time is only ever copied, so its type is left open.
\<close>

datatype TeamNum = T0 | T1

record 'tm ScoringSummaryEvent =
  sse_hide :: bool
  sse_quarter :: string
  sse_t :: TeamNum
  sse_text :: string
  sse_time :: 'tm
  sse_type :: string

text \<open>
  An element of \<^verbatim>\<open>processedEvents\<close>. In the source its \<^verbatim>\<open>score\<close> field refers to an array;
  the record is used with an address there while the loop runs, and with the array's
  contents in the value that \<^verbatim>\<open>processEvents\<close> returns.
\<close>

record ('tm, 's) processedEvent =
  pe_t :: TeamNum
  pe_quarter :: string
  pe_time :: 'tm
  pe_text :: string
  pe_score :: 's
  pe_scoreType :: "string option"

text \<open>\<^verbatim>\<open>score[t] += n\<close> on the contents \<^verbatim>\<open>[home, away]\<close> of an array.\<close>

fun addScore :: "TeamNum \<Rightarrow> nat \<Rightarrow> nat \<times> nat \<Rightarrow> nat \<times> nat" where
  "addScore T0 n (a, b) = (a + n, b)"
| "addScore T1 n (a, b) = (a, b + n)"

subsection \<open>The loop over a store of arrays\<close>

text \<open>
  The running score is one array that the loop mutates in place, and every row holds a
  reference to an array, so whether a row's snapshot follows later mutations depends on
  which array it refers to. The store maps addresses to two-element arrays; \<open>fresh\<close> is
  the next unused address. \<^verbatim>\<open>processedEvents\<close> is the array of row objects; each row object
  is referred to from that array only (\<^verbatim>\<open>prevEvent\<close> is its last element).
\<close>

type_synonym addr = nat

record 'tm store =
  arrays :: "addr \<Rightarrow> nat \<times> nat"
  fresh :: addr
  processedEvents :: "('tm, addr) processedEvent list"

text \<open>\<^verbatim>\<open>const score = [0, 0]\<close> is the first array allocated.\<close>

definition score :: addr where
  "score = 0"

definition initStore :: "'tm store" where
  "initStore = \<lparr>arrays = (\<lambda>_. (0, 0)), fresh = Suc score, processedEvents = []\<rparr>"

text \<open>
  \<^verbatim>\<open>score.slice()\<close> allocates a new array with the contents of \<^verbatim>\<open>score\<close>.

  Modelled from the spec: \<^verbatim>\<open>helpers.deepCopy\<close> is imported from a module that is not among
  the sources; the specification calls its result "a deep-copied score snapshot", which
  for an array of two numbers is again a new array with the same contents.
\<close>

definition slice :: "addr \<Rightarrow> 'tm store \<Rightarrow> addr \<times> 'tm store" where
  "slice a h = (fresh h, h\<lparr>arrays := (arrays h)(fresh h := arrays h a), fresh := Suc (fresh h)\<rparr>)"

definition deepCopy :: "addr \<Rightarrow> 'tm store \<Rightarrow> addr \<times> 'tm store" where
  "deepCopy a h = (fresh h, h\<lparr>arrays := (arrays h)(fresh h := arrays h a), fresh := Suc (fresh h)\<rparr>)"

text \<open>\<^verbatim>\<open>score[event.t] += n\<close>.\<close>

definition bump :: "TeamNum \<Rightarrow> nat \<Rightarrow> 'tm store \<Rightarrow> 'tm store" where
  "bump t n h = h\<lparr>arrays := (arrays h)(score := addScore t n (arrays h score))\<rparr>"

text \<open>
  The first half of the loop body: the \<^verbatim>\<open>if / else if\<close> chain on the event's text, which
  sets \<^verbatim>\<open>scoreType\<close> and updates the running score.
\<close>

definition scoreStep :: "'tm ScoringSummaryEvent \<Rightarrow> 'tm store \<Rightarrow> string option \<times> 'tm store" where
  "scoreStep event h =
     (if includesStr (sse_text event) ''extra point'' then
        (Some ''XP'', if includesStr (sse_text event) ''made'' then bump (sse_t event) 1 h else h)
      else if includesStr (sse_text event) ''field goal'' then
        (Some ''FG'', if includesStr (sse_text event) ''made'' then bump (sse_t event) 3 h else h)
      else if includesStr (sse_text event) ''touchdown'' then
        (Some ''TD'', bump (sse_t event) 6 h)
      else if includesStr (toLowerCase (sse_text event)) ''two point'' then
        (Some ''2P'', if \<not> includesStr (sse_text event) ''failed'' then bump (sse_t event) 2 h else h)
      else (None, h))"

text \<open>
  \<^verbatim>\<open>prevEvent.score = score.slice(); prevEvent.text += ` (${event.text})`\<close>, on the last row
  object.
\<close>

definition mergeIntoPrev :: "'tm ScoringSummaryEvent \<Rightarrow> 'tm store \<Rightarrow> 'tm store" where
  "mergeIntoPrev event h =
     (let (a, h') = slice score h; prevEvent = last (processedEvents h') in
      h'\<lparr>processedEvents := butlast (processedEvents h') @
            [prevEvent\<lparr>pe_score := a,
               pe_text := pe_text prevEvent @ '' ('' @ sse_text event @ '')''\<rparr>]\<rparr>)"

text \<open>
  \<^verbatim>\<open>processedEvents.push({t: event.t, quarter: event.quarter, time: event.time,
  text: event.text, score: helpers.deepCopy(score), scoreType})\<close>.
\<close>

definition pushRow :: "'tm ScoringSummaryEvent \<Rightarrow> string option \<Rightarrow> 'tm store \<Rightarrow> 'tm store" where
  "pushRow event scoreType h =
     (let (a, h') = deepCopy score h in
      h'\<lparr>processedEvents := processedEvents h' @
           [\<lparr>pe_t = sse_t event, pe_quarter = sse_quarter event,
             pe_time = sse_time event, pe_text = sse_text event, pe_score = a,
             pe_scoreType = scoreType\<rparr>]\<rparr>)"

text \<open>
  One iteration of \<^verbatim>\<open>for (const event of events)\<close>. \<^verbatim>\<open>prevEvent\<close> is undefined, hence falsy,
  exactly when \<^verbatim>\<open>processedEvents\<close> is empty.
\<close>

definition loopBody :: "'tm store \<Rightarrow> 'tm ScoringSummaryEvent \<Rightarrow> 'tm store" where
  "loopBody h0 event =
     (if sse_hide event then h0
      else
        (let (scoreType, h) = scoreStep event h0 in
         if processedEvents h \<noteq> [] \<and> scoreType = Some ''XP'' then mergeIntoPrev event h
         else if processedEvents h \<noteq> [] \<and> scoreType = Some ''2P''
                 \<and> sse_t event = pe_t (last (processedEvents h)) then mergeIntoPrev event h
         else pushRow event scoreType h))"

text \<open>
  What the caller sees of a returned row: its fields, with the contents of the array that
  \<^verbatim>\<open>score\<close> refers to when the function returns.
\<close>

definition readRow :: "'tm store \<Rightarrow> ('tm, addr) processedEvent \<Rightarrow> ('tm, nat \<times> nat) processedEvent" where
  "readRow h r =
     \<lparr>pe_t = pe_t r, pe_quarter = pe_quarter r, pe_time = pe_time r, pe_text = pe_text r,
      pe_score = arrays h (pe_score r), pe_scoreType = pe_scoreType r\<rparr>"

definition processEvents ::
  "'tm ScoringSummaryEvent list \<Rightarrow> ('tm, nat \<times> nat) processedEvent list" where
  "processEvents events =
     (let h = foldl loopBody initStore events in map (readRow h) (processedEvents h))"

subsection \<open>The same loop on values\<close>

text \<open>
  The loop with the running score and the snapshots as values instead of references. It is
  shown below to compute what \<open>processEvents\<close> returns, and the properties of
  \<open>processEvents\<close> are derived through it.
\<close>

definition scoreStepV ::
  "'tm ScoringSummaryEvent \<Rightarrow> nat \<times> nat \<Rightarrow> string option \<times> (nat \<times> nat)" where
  "scoreStepV event sc =
     (if includesStr (sse_text event) ''extra point'' then
        (Some ''XP'',
         if includesStr (sse_text event) ''made'' then addScore (sse_t event) 1 sc else sc)
      else if includesStr (sse_text event) ''field goal'' then
        (Some ''FG'',
         if includesStr (sse_text event) ''made'' then addScore (sse_t event) 3 sc else sc)
      else if includesStr (sse_text event) ''touchdown'' then
        (Some ''TD'', addScore (sse_t event) 6 sc)
      else if includesStr (toLowerCase (sse_text event)) ''two point'' then
        (Some ''2P'',
         if \<not> includesStr (sse_text event) ''failed'' then addScore (sse_t event) 2 sc else sc)
      else (None, sc))"

definition loopBodyV ::
  "(nat \<times> nat) \<times> ('tm, nat \<times> nat) processedEvent list \<Rightarrow> 'tm ScoringSummaryEvent
     \<Rightarrow> (nat \<times> nat) \<times> ('tm, nat \<times> nat) processedEvent list" where
  "loopBodyV st event =
     (let sc = fst st; rows = snd st in
      if sse_hide event then (sc, rows)
      else
        (let (scoreType, sc') = scoreStepV event sc in
         if rows \<noteq> [] \<and> scoreType = Some ''XP'' then
           (sc',
            butlast rows @
              [(last rows)\<lparr>pe_score := sc',
                 pe_text := pe_text (last rows) @ '' ('' @ sse_text event @ '')''\<rparr>])
         else if rows \<noteq> [] \<and> scoreType = Some ''2P'' \<and> sse_t event = pe_t (last rows) then
           (sc',
            butlast rows @
              [(last rows)\<lparr>pe_score := sc',
                 pe_text := pe_text (last rows) @ '' ('' @ sse_text event @ '')''\<rparr>])
         else
           (sc',
            rows @
              [\<lparr>pe_t = sse_t event, pe_quarter = sse_quarter event, pe_time = sse_time event,
                pe_text = sse_text event, pe_score = sc', pe_scoreType = scoreType\<rparr>])))"

text \<open>
  The running score: the contents of the array \<^verbatim>\<open>score\<close> after the loop has run over the
  given events.
\<close>

definition runningScore :: "'tm ScoringSummaryEvent list \<Rightarrow> nat \<times> nat" where
  "runningScore events = arrays (foldl loopBody (initStore :: 'tm store) events) score"

text \<open>
  The rows refer to arrays that were allocated after \<^verbatim>\<open>score\<close> and before \<open>fresh\<close>; this
  is what keeps a snapshot apart from the running score.
\<close>

definition storeInv :: "'tm store \<Rightarrow> bool" where
  "storeInv h \<longleftrightarrow>
     (\<forall>r \<in> set (processedEvents h). score < pe_score r \<and> pe_score r < fresh h)
     \<and> score < fresh h"

definition viewOf :: "'tm store \<Rightarrow> (nat \<times> nat) \<times> ('tm, nat \<times> nat) processedEvent list" where
  "viewOf h = (arrays h score, map (readRow h) (processedEvents h))"

subsection \<open>The classification in the specification's words\<close>

text \<open>
  The score type of a text: an extra point if it contains "extra point"; otherwise a field
  goal if it contains "field goal"; otherwise a touchdown if it contains "touchdown";
  otherwise a two-point conversion if it contains "two point" in any capitalisation;
  otherwise none.
\<close>

definition specScoreType :: "string \<Rightarrow> string option" where
  "specScoreType txt =
     (if includesStr txt ''extra point'' then Some ''XP''
      else if includesStr txt ''field goal'' then Some ''FG''
      else if includesStr txt ''touchdown'' then Some ''TD''
      else if includesStr (toLowerCase txt) ''two point'' then Some ''2P''
      else None)"

text \<open>
  The points of a text: an extra point scores 1 iff the text contains "made", a field goal
  3 iff it contains "made", a touchdown always 6, a two-point conversion 2 iff the text does
  not contain "failed", anything else 0.
\<close>

definition specPoints :: "string \<Rightarrow> nat" where
  "specPoints txt =
     (case specScoreType txt of
        None \<Rightarrow> 0
      | Some ty \<Rightarrow>
          if ty = ''XP'' then (if includesStr txt ''made'' then 1 else 0)
          else if ty = ''FG'' then (if includesStr txt ''made'' then 3 else 0)
          else if ty = ''TD'' then 6
          else (if includesStr txt ''failed'' then 0 else 2))"

section \<open>The play-by-play logger\<close>

subsection \<open>Rendering numbers\<close>

text \<open>
  Template literals render a number in decimal. Yardage, quarter numbers and the parts of
  the clock are whole numbers in the model, printed digit by digit as a template literal
  prints a whole number of magnitude below 10 to the 21; fractional yardage and the
  exponent form of larger numbers are outside the model.
\<close>

definition digitChar :: "nat \<Rightarrow> char" where
  "digitChar d = ''0123456789'' ! d"

fun showNat :: "nat \<Rightarrow> string" where
  "showNat n = (if n < 10 then [digitChar n] else showNat (n div 10) @ [digitChar (n mod 10)])"

declare showNat.simps [simp del]

definition showInt :: "int \<Rightarrow> string" where
  "showInt i = (if i < 0 then ''-'' @ showNat (nat (- i)) else showNat (nat i))"

text \<open>\<^verbatim>\<open>${yds}\<close> where \<^verbatim>\<open>yds\<close> may be undefined.\<close>

definition showNumber :: "int option \<Rightarrow> string" where
  "showNumber n = (case n of None \<Rightarrow> ''undefined'' | Some i \<Rightarrow> showInt i)"

text \<open>\<^verbatim>\<open>${names[i]}\<close>: an index past the end of the array reads undefined.\<close>

definition nameAt :: "string list \<Rightarrow> nat \<Rightarrow> string" where
  "nameAt names i = (if i < length names then names ! i else ''undefined'')"

subsection \<open>Data\<close>

text \<open>
  \<^verbatim>\<open>twoPointConversionState: "attempting" | "converted" | void\<close>; undefined is \<open>None\<close>.
\<close>

datatype twoPointState = Attempting | Converted

text \<open>
  The objects that \<^verbatim>\<open>logEvent\<close> pushes: \<^verbatim>\<open>{type: "text", text, t, time, quarter}\<close>. The same
  object goes to both logs and is never changed afterwards, so it is modelled by its value.
  The time of a synthesized entry is read off another entry and is undefined when that
  entry has no time.
\<close>

record event =
  ev_type :: string
  ev_text :: string
  ev_t :: "nat option"
  ev_time :: "string option"
  ev_quarter :: string

text \<open>The objects that \<^verbatim>\<open>logStat\<close> pushes: \<^verbatim>\<open>{type: "stat", qtr, t, pid, s, amt}\<close>.\<close>

record stat =
  st_type :: string
  st_qtr :: string
  st_t :: nat
  st_pid :: int
  st_s :: string
  st_amt :: int

text \<open>An element of \<^verbatim>\<open>playByPlay: any[]\<close> is an object of one of the two shapes.\<close>

datatype entry = TextEntry event | StatEntry stat

text \<open>\<^verbatim>\<open>previousEvent.time\<close>: an object pushed by \<^verbatim>\<open>logStat\<close> has no such property.\<close>

fun timeOf :: "entry \<Rightarrow> string option" where
  "timeOf (TextEntry e) = ev_time e"
| "timeOf (StatEntry _) = None"

record PlayByPlayLogger =
  active :: bool
  playByPlay :: "entry list"
  scoringSummary :: "event list"
  twoPointConversionState :: "twoPointState option"
  twoPointConversionTeam :: "nat option"
  quarter :: string

text \<open>
  The second argument of \<^verbatim>\<open>logEvent\<close>. Every field but \<^verbatim>\<open>clock\<close> is optional; undefined is
  \<open>None\<close>. The clock is a number of minutes; the model takes it as a rational and computes
  with it exactly.
\<close>

record args =
  arg_clock :: rat
  arg_lost :: "bool option"
  arg_made :: "bool option"
  arg_names :: "string list option"
  arg_quarter :: "int option"
  arg_safety :: "bool option"
  arg_t :: "nat option"
  arg_td :: "bool option"
  arg_touchback :: "bool option"
  arg_twoPointConversionTeam :: "nat option"
  arg_yds :: "int option"

text \<open>A flag in a condition: undefined and false are both falsy.\<close>

definition truthy :: "bool option \<Rightarrow> bool" where
  "truthy b \<longleftrightarrow> b = Some True"

text \<open>
  \<^verbatim>\<open>throw new Error("Missing names")\<close> and the like are \<open>Missing ''names''\<close>;
  \<^verbatim>\<open>throw new Error(`No text for "${type}"`)\<close> is \<open>NoText type\<close>.
\<close>

datatype error = Missing string | NoText string

subsection \<open>Operations\<close>

definition descriptionYdsTD :: "int option \<Rightarrow> bool option \<Rightarrow> string \<Rightarrow> bool \<Rightarrow> string" where
  "descriptionYdsTD yds td touchdownText showYdsOnTD =
     (if truthy td \<and> showYdsOnTD then
        showNumber yds @ '' yards'' @ (if truthy td then '' and '' @ touchdownText @ ''!'' else '''')
      else if truthy td then touchdownText @ ''!''
      else showNumber yds @ '' yards'')"

definition constructor :: "bool \<Rightarrow> PlayByPlayLogger" where
  "constructor a =
     \<lparr>active = a, playByPlay = [], scoringSummary = [], twoPointConversionState = None,
      twoPointConversionTeam = None, quarter = ''Q1''\<rparr>"

definition updateTwoPointConversionState :: "bool option \<Rightarrow> PlayByPlayLogger \<Rightarrow> PlayByPlayLogger" where
  "updateTwoPointConversionState td s =
     (if truthy td \<and> twoPointConversionState s = Some Attempting
      then s\<lparr>twoPointConversionState := Some Converted\<rparr> else s)"

text \<open>
  The first statement of \<^verbatim>\<open>logEvent\<close>, on the call's \<^verbatim>\<open>twoPointConversionTeam\<close>.
  \<^verbatim>\<open>previousEvent\<close> is undefined, hence falsy, exactly when \<^verbatim>\<open>playByPlay\<close> is empty.
\<close>

definition twoPointStep :: "nat option \<Rightarrow> PlayByPlayLogger \<Rightarrow> PlayByPlayLogger" where
  "twoPointStep tag s =
     (case tag of
        None \<Rightarrow>
          (let s1 =
             (if twoPointConversionState s = Some Attempting then
                (if playByPlay s \<noteq> [] then
                   (let previousEvent = last (playByPlay s);
                        event = \<lparr>ev_type = ''text'', ev_text = ''Two point conversion failed'',
                                 ev_t = twoPointConversionTeam s, ev_time = timeOf previousEvent,
                                 ev_quarter = quarter s\<rparr>
                    in s\<lparr>playByPlay := playByPlay s @ [TextEntry event],
                         scoringSummary := scoringSummary s @ [event]\<rparr>)
                 else s)
              else s)
           in s1\<lparr>twoPointConversionState := None, twoPointConversionTeam := None\<rparr>)
      | Some team \<Rightarrow>
          (if twoPointConversionState s = None
           then s\<lparr>twoPointConversionState := Some Attempting,
                  twoPointConversionTeam := Some team\<rparr>
           else s))"

text \<open>\<^verbatim>\<open>touchdownText\<close> and \<^verbatim>\<open>showYdsOnTD\<close>.\<close>

definition touchdownPhrase :: "nat option \<Rightarrow> nat option \<Rightarrow> string \<times> bool" where
  "touchdownPhrase tag t =
     (case tag of
        None \<Rightarrow> (''a touchdown'', True)
      | Some team \<Rightarrow>
          if Some team = t then (''a two point conversion'', False) else (''two points'', True))"

text \<open>
  The chain over \<^verbatim>\<open>type\<close>, one definition for each branch and \<open>narrate\<close> for the
  chain itself. It returns the error thrown, or the value of \<^verbatim>\<open>text\<close> (\<open>None\<close> when
  no branch assigned it) with the logger as the branch left it. No branch changes the
  logger before one of its throws, so a throw leaves the logger as it was on entry.

  \<^verbatim>\<open>helpers.ordinal\<close> is imported from a module that is not among the sources; it is the
  parameter \<open>ordinal\<close>, a function from the quarter's number to a string. The source
  calls it before it checks that the quarter is defined; the call does not touch the
  logger, so the model applies it to a defined quarter only.
\<close>

text \<open>The branch \<^verbatim>\<open>type === "injury"\<close>.\<close>

definition onInjury ::
  "args \<Rightarrow> PlayByPlayLogger \<Rightarrow> error + (string option \<times> PlayByPlayLogger)" where
  "onInjury f s =
    (case arg_names f of None \<Rightarrow> Inl (Missing ''names'') | Some names \<Rightarrow>
     Inr (Some (nameAt names 0 @ '' was injured!''), s))"

text \<open>The branch \<^verbatim>\<open>type === "quarter"\<close>.\<close>

definition onQuarter ::
  "(int \<Rightarrow> string) \<Rightarrow> args \<Rightarrow> PlayByPlayLogger \<Rightarrow> error + (string option \<times> PlayByPlayLogger)" where
  "onQuarter ordinal f s =
    (case arg_quarter f of None \<Rightarrow> Inl (Missing ''quarter'') | Some q \<Rightarrow>
     Inr (Some (''Start of '' @ ordinal q @ '' quarter''), s\<lparr>quarter := ''Q'' @ showInt q\<rparr>))"

text \<open>The branch \<^verbatim>\<open>type === "overtime"\<close>.\<close>

definition onOvertime ::
  "args \<Rightarrow> PlayByPlayLogger \<Rightarrow> error + (string option \<times> PlayByPlayLogger)" where
  "onOvertime f s =
    Inr (Some ''Start of overtime'', s\<lparr>quarter := ''OT''\<rparr>)"

text \<open>The branch \<^verbatim>\<open>type === "kickoff"\<close>.\<close>

definition onKickoff ::
  "args \<Rightarrow> PlayByPlayLogger \<Rightarrow> error + (string option \<times> PlayByPlayLogger)" where
  "onKickoff f s =
    (case arg_names f of None \<Rightarrow> Inl (Missing ''names'') | Some names \<Rightarrow>
     case arg_yds f of None \<Rightarrow> Inl (Missing ''yds'') | Some yds \<Rightarrow>
     Inr (Some (nameAt names 0 @ '' kicked off'' @
            (if truthy (arg_touchback f) then '' for a touchback''
             else if yds < 0 then '' into the end zone''
             else '' to the '' @ showInt yds @ '' yard line'')), s))"

text \<open>The branch \<^verbatim>\<open>type === "kickoffReturn"\<close>.\<close>

definition onKickoffReturn ::
  "args \<Rightarrow> PlayByPlayLogger \<Rightarrow> error + (string option \<times> PlayByPlayLogger)" where
  "onKickoffReturn f s =
    (case arg_names f of None \<Rightarrow> Inl (Missing ''names'') | Some names \<Rightarrow>
     case arg_yds f of None \<Rightarrow> Inl (Missing ''yds'') | Some yds \<Rightarrow>
     Inr (Some (nameAt names 0 @ '' returned the kickoff '' @ showInt yds @ '' yards'' @
            (if truthy (arg_td f) then '' for a touchdown!'' else '''')), s))"

text \<open>The branch \<^verbatim>\<open>type === "punt"\<close>.\<close>

definition onPunt ::
  "args \<Rightarrow> PlayByPlayLogger \<Rightarrow> error + (string option \<times> PlayByPlayLogger)" where
  "onPunt f s =
    (case arg_names f of None \<Rightarrow> Inl (Missing ''names'') | Some names \<Rightarrow>
     case arg_yds f of None \<Rightarrow> Inl (Missing ''yds'') | Some yds \<Rightarrow>
     Inr (Some (nameAt names 0 @ '' punted '' @
            (if truthy (arg_touchback f) then ''for a touchback''
             else if yds < 0 then ''into the end zone''
             else ''to the '' @ showInt yds @ '' yard line'')), s))"

text \<open>The branch \<^verbatim>\<open>type === "puntReturn"\<close>.\<close>

definition onPuntReturn ::
  "args \<Rightarrow> PlayByPlayLogger \<Rightarrow> error + (string option \<times> PlayByPlayLogger)" where
  "onPuntReturn f s =
    (case arg_names f of None \<Rightarrow> Inl (Missing ''names'') | Some names \<Rightarrow>
     case arg_yds f of None \<Rightarrow> Inl (Missing ''yds'') | Some yds \<Rightarrow>
     Inr (Some (nameAt names 0 @ '' returned the punt '' @ showInt yds @ '' yards'' @
            (if truthy (arg_td f) then '' for a touchdown!'' else '''')), s))"

text \<open>The branch \<^verbatim>\<open>type === "extraPoint"\<close>.\<close>

definition onExtraPoint ::
  "args \<Rightarrow> PlayByPlayLogger \<Rightarrow> error + (string option \<times> PlayByPlayLogger)" where
  "onExtraPoint f s =
    (case arg_names f of None \<Rightarrow> Inl (Missing ''names'') | Some names \<Rightarrow>
     Inr (Some (nameAt names 0 @ '' '' @
            (if truthy (arg_made f) then ''made'' else ''missed'') @ '' the extra point''), s))"

text \<open>The branch \<^verbatim>\<open>type === "fieldGoal"\<close>.\<close>

definition onFieldGoal ::
  "args \<Rightarrow> PlayByPlayLogger \<Rightarrow> error + (string option \<times> PlayByPlayLogger)" where
  "onFieldGoal f s =
    (case arg_names f of None \<Rightarrow> Inl (Missing ''names'') | Some names \<Rightarrow>
     case arg_yds f of None \<Rightarrow> Inl (Missing ''yds'') | Some yds \<Rightarrow>
     Inr (Some (nameAt names 0 @ '' '' @
            (if truthy (arg_made f) then ''made'' else ''missed'') @
            '' a '' @ showInt yds @ '' yard field goal''), s))"

text \<open>The branch \<^verbatim>\<open>type === "fumble"\<close>.\<close>

definition onFumble ::
  "args \<Rightarrow> PlayByPlayLogger \<Rightarrow> error + (string option \<times> PlayByPlayLogger)" where
  "onFumble f s =
    (case arg_names f of None \<Rightarrow> Inl (Missing ''names'') | Some names \<Rightarrow>
     Inr (Some (nameAt names 0 @ '' fumbled the ball!''), s))"

text \<open>The branch \<^verbatim>\<open>type === "fumbleRecovery"\<close>.\<close>

definition onFumbleRecovery ::
  "args \<Rightarrow> string \<Rightarrow> bool \<Rightarrow> PlayByPlayLogger \<Rightarrow> error + (string option \<times> PlayByPlayLogger)" where
  "onFumbleRecovery f touchdownText showYdsOnTD s =
    (case arg_names f of None \<Rightarrow> Inl (Missing ''names'') | Some names \<Rightarrow>
     if arg_td f = None then Inl (Missing ''td'') else
     case arg_yds f of None \<Rightarrow> Inl (Missing ''yds'') | Some yds \<Rightarrow>
     if truthy (arg_safety f) \<or> truthy (arg_touchback f) then
       Inr (Some (nameAt names 0 @ '' recovered the fumble in the endzone, resulting in a '' @
              (if truthy (arg_safety f) then ''safety!'' else ''touchback'')), s)
     else if truthy (arg_lost f) then
       Inr (Some (nameAt names 0 @ '' recovered the fumble for the defense '' @
              (if truthy (arg_td f) \<and> yds < 1
               then ''in the endzone for '' @ touchdownText @ ''!''
               else ''and returned it '' @ showInt yds @ '' yards'' @
                 (if truthy (arg_td f) then '' for '' @ touchdownText @ ''!'' else ''''))),
            updateTwoPointConversionState (arg_td f) s)
     else
       Inr (Some (nameAt names 0 @ '' recovered the fumble for the offense'' @
              (if truthy (arg_td f)
               then '' and carried it into the endzone for '' @ touchdownText @ ''!''
               else '''')),
            updateTwoPointConversionState (arg_td f) s))"

text \<open>The branch \<^verbatim>\<open>type === "interception"\<close>.\<close>

definition onInterception ::
  "args \<Rightarrow> string \<Rightarrow> bool \<Rightarrow> PlayByPlayLogger \<Rightarrow> error + (string option \<times> PlayByPlayLogger)" where
  "onInterception f touchdownText showYdsOnTD s =
    (case arg_names f of None \<Rightarrow> Inl (Missing ''names'') | Some names \<Rightarrow>
     if arg_td f = None then Inl (Missing ''td'') else
     case arg_yds f of None \<Rightarrow> Inl (Missing ''yds'') | Some yds \<Rightarrow>
     Inr (Some (nameAt names 0 @ '' intercepted the pass and returned it '' @ showInt yds @
            '' yards'' @
            (if truthy (arg_td f) then '' for '' @ touchdownText @ ''!'' else '''')),
          updateTwoPointConversionState (arg_td f) s))"

text \<open>The branch \<^verbatim>\<open>type === "sack"\<close>.\<close>

definition onSack ::
  "args \<Rightarrow> PlayByPlayLogger \<Rightarrow> error + (string option \<times> PlayByPlayLogger)" where
  "onSack f s =
    (case arg_names f of None \<Rightarrow> Inl (Missing ''names'') | Some names \<Rightarrow>
     case arg_yds f of None \<Rightarrow> Inl (Missing ''yds'') | Some yds \<Rightarrow>
     Inr (Some (nameAt names 0 @ '' was sacked by '' @ nameAt names 1 @ '' for a '' @
            (if truthy (arg_safety f) then ''safety!''
             else showInt yds @ '' yard loss'')), s))"

text \<open>The branch \<^verbatim>\<open>type === "dropback"\<close>.\<close>

definition onDropback ::
  "args \<Rightarrow> PlayByPlayLogger \<Rightarrow> error + (string option \<times> PlayByPlayLogger)" where
  "onDropback f s =
    (case arg_names f of None \<Rightarrow> Inl (Missing ''names'') | Some names \<Rightarrow>
     Inr (Some (nameAt names 0 @ '' drops back to pass''), s))"

text \<open>The branch \<^verbatim>\<open>type === "passComplete"\<close>.\<close>

definition onPassComplete ::
  "args \<Rightarrow> string \<Rightarrow> bool \<Rightarrow> PlayByPlayLogger \<Rightarrow> error + (string option \<times> PlayByPlayLogger)" where
  "onPassComplete f touchdownText showYdsOnTD s =
    (case arg_names f of None \<Rightarrow> Inl (Missing ''names'') | Some names \<Rightarrow>
     if arg_td f = None then Inl (Missing ''td'')
     else if truthy (arg_safety f) then
       Inr (Some (nameAt names 0 @ '' completed a pass to '' @ nameAt names 1 @
              '' but he was tackled in the endzone for a safety!''), s)
     else
       Inr (Some (nameAt names 0 @ '' completed a pass to '' @ nameAt names 1 @ '' for '' @
              descriptionYdsTD (arg_yds f) (arg_td f) touchdownText showYdsOnTD),
            updateTwoPointConversionState (arg_td f) s))"

text \<open>The branch \<^verbatim>\<open>type === "passIncomplete"\<close>.\<close>

definition onPassIncomplete ::
  "args \<Rightarrow> PlayByPlayLogger \<Rightarrow> error + (string option \<times> PlayByPlayLogger)" where
  "onPassIncomplete f s =
    (case arg_names f of None \<Rightarrow> Inl (Missing ''names'') | Some names \<Rightarrow>
     Inr (Some (''Incomplete pass to '' @ nameAt names 1), s))"

text \<open>The branch \<^verbatim>\<open>type === "handoff"\<close>.\<close>

definition onHandoff ::
  "args \<Rightarrow> PlayByPlayLogger \<Rightarrow> error + (string option \<times> PlayByPlayLogger)" where
  "onHandoff f s =
    (case arg_names f of None \<Rightarrow> Inl (Missing ''names'') | Some names \<Rightarrow>
     Inr (Some (nameAt names 0 @ '' hands the ball off to '' @ nameAt names 1), s))"

text \<open>The branch \<^verbatim>\<open>type === "run"\<close>.\<close>

definition onRun ::
  "args \<Rightarrow> string \<Rightarrow> bool \<Rightarrow> PlayByPlayLogger \<Rightarrow> error + (string option \<times> PlayByPlayLogger)" where
  "onRun f touchdownText showYdsOnTD s =
    (case arg_names f of None \<Rightarrow> Inl (Missing ''names'') | Some names \<Rightarrow>
     if arg_td f = None then Inl (Missing ''td'')
     else if truthy (arg_safety f) then
       Inr (Some (nameAt names 0 @ '' was tackled in the endzone for a safety!''), s)
     else
       Inr (Some (nameAt names 0 @ '' rushed for '' @
              descriptionYdsTD (arg_yds f) (arg_td f) touchdownText showYdsOnTD),
            updateTwoPointConversionState (arg_td f) s))"

definition narrate ::
  "(int \<Rightarrow> string) \<Rightarrow> string \<Rightarrow> args \<Rightarrow> string \<Rightarrow> bool \<Rightarrow> PlayByPlayLogger
     \<Rightarrow> error + (string option \<times> PlayByPlayLogger)" where
  "narrate ordinal type f touchdownText showYdsOnTD s =
     (if type = ''injury'' then onInjury f s
      else if type = ''quarter'' then onQuarter ordinal f s
      else if type = ''overtime'' then onOvertime f s
      else if type = ''kickoff'' then onKickoff f s
      else if type = ''kickoffReturn'' then onKickoffReturn f s
      else if type = ''punt'' then onPunt f s
      else if type = ''puntReturn'' then onPuntReturn f s
      else if type = ''extraPoint'' then onExtraPoint f s
      else if type = ''fieldGoal'' then onFieldGoal f s
      else if type = ''fumble'' then onFumble f s
      else if type = ''fumbleRecovery'' then onFumbleRecovery f touchdownText showYdsOnTD s
      else if type = ''interception'' then onInterception f touchdownText showYdsOnTD s
      else if type = ''sack'' then onSack f s
      else if type = ''dropback'' then onDropback f s
      else if type = ''passComplete'' then onPassComplete f touchdownText showYdsOnTD s
      else if type = ''passIncomplete'' then onPassIncomplete f s
      else if type = ''handoff'' then onHandoff f s
      else if type = ''run'' then onRun f touchdownText showYdsOnTD s
      else Inr (None, s))"

text \<open>
  \<^verbatim>\<open>`${Math.floor(clock)}:${sec}`\<close> with \<^verbatim>\<open>sec = Math.floor((clock % 1) * 60)\<close>, padded with a
  zero when \<^verbatim>\<open>sec < 10\<close>. The remainder \<^verbatim>\<open>clock % 1\<close> has the sign of the clock. The
  source computes in double precision, where the product is rounded before the floor is
  taken; the model computes exactly, so that on a clock such as 14.95 its seconds can
  differ by one from the source's. No statement below depends on the digits of a time.
\<close>

definition formatTime :: "rat \<Rightarrow> string" where
  "formatTime clock =
     (let whole = (if clock < 0 then \<lceil>clock\<rceil> else \<lfloor>clock\<rfloor>);
          sec = \<lfloor>(clock - of_int whole) * 60\<rfloor>
      in showInt \<lfloor>clock\<rfloor> @ '':'' @ (if sec < 10 then ''0'' @ showInt sec else showInt sec))"

text \<open>
  The end of \<^verbatim>\<open>logEvent\<close>: \<^verbatim>\<open>if (text) { ... push ... } else { throw ... }\<close>. An undefined
  and an empty text are both falsy.
\<close>

definition emit ::
  "string \<Rightarrow> args \<Rightarrow> string option \<Rightarrow> PlayByPlayLogger \<Rightarrow> error option \<times> PlayByPlayLogger" where
  "emit type f text s =
     (if text \<noteq> None \<and> text \<noteq> Some '''' then
        (let event = \<lparr>ev_type = ''text'', ev_text = the text, ev_t = arg_t f,
                      ev_time = Some (formatTime (arg_clock f)), ev_quarter = quarter s\<rparr>;
             s1 = s\<lparr>playByPlay := playByPlay s @ [TextEntry event]\<rparr>
         in if truthy (arg_safety f) \<or> truthy (arg_td f) \<or> type = ''extraPoint''
               \<or> (truthy (arg_made f) \<and> type = ''fieldGoal'')
            then (None, s1\<lparr>scoringSummary := scoringSummary s1 @ [event]\<rparr>)
            else (None, s1))
      else (Some (NoText type), s))"

text \<open>
  \<^verbatim>\<open>logEvent(type, fields)\<close>. The result is the error thrown, if any, and the logger as the
  call leaves it. The guard \<^verbatim>\<open>if (this.playByPlay !== undefined)\<close> always holds: the
  constructor sets \<^verbatim>\<open>playByPlay\<close> to an array and nothing unsets it.
\<close>

definition logEvent ::
  "(int \<Rightarrow> string) \<Rightarrow> string \<Rightarrow> args \<Rightarrow> PlayByPlayLogger \<Rightarrow> error option \<times> PlayByPlayLogger" where
  "logEvent ordinal type f s =
     (let s1 = twoPointStep (arg_twoPointConversionTeam f) s;
          (touchdownText, showYdsOnTD) = touchdownPhrase (arg_twoPointConversionTeam f) (arg_t f)
      in case narrate ordinal type f touchdownText showYdsOnTD s1 of
           Inl e \<Rightarrow> (Some e, s1)
         | Inr (text, s2) \<Rightarrow> emit type f text s2)"

text \<open>
  A sequence of calls on one logger. A throw is not caught by the logger, so the sequence
  ends at the first call that throws.
\<close>

fun logEvents ::
  "(int \<Rightarrow> string) \<Rightarrow> PlayByPlayLogger \<Rightarrow> (string \<times> args) list
     \<Rightarrow> error option \<times> PlayByPlayLogger" where
  "logEvents ordinal s [] = (None, s)"
| "logEvents ordinal s ((type, f) # calls) =
     (case logEvent ordinal type f s of
        (Some e, s') \<Rightarrow> (Some e, s')
      | (None, s') \<Rightarrow> logEvents ordinal s' calls)"

text \<open>
  \<^verbatim>\<open>logStat(qtr, t, pid, s, amt)\<close> does nothing on an inactive logger. The quarter of the
  pushed object is the logger's label, not the argument.
\<close>

definition logStat ::
  "int \<Rightarrow> nat \<Rightarrow> int \<Rightarrow> string \<Rightarrow> int \<Rightarrow> PlayByPlayLogger \<Rightarrow> PlayByPlayLogger" where
  "logStat qtr t pid s amt lg =
     (if \<not> active lg then lg
      else lg\<lparr>playByPlay := playByPlay lg @
             [StatEntry \<lparr>st_type = ''stat'', st_qtr = quarter lg, st_t = t, st_pid = pid, st_s = s,
                st_amt = amt\<rparr>]\<rparr>)"

text \<open>
  \<^verbatim>\<open>getPlayByPlay(boxScore)\<close>: undefined when the logger is not active, otherwise an "init"
  element followed by the narration log.
\<close>

datatype 'b playByPlayItem = Init 'b | Logged entry

definition getPlayByPlay :: "'b \<Rightarrow> PlayByPlayLogger \<Rightarrow> 'b playByPlayItem list option" where
  "getPlayByPlay boxScore s =
     (if \<not> active s then None else Some ([Init boxScore] @ map Logged (playByPlay s)))"

section \<open>Notions used in the statements\<close>

subsection \<open>Orders on the returned rows\<close>

text \<open>Both components of the first row's snapshot are at most those of the second.\<close>

definition scoreLe ::
  "('tm, nat \<times> nat) processedEvent \<Rightarrow> ('tm, nat \<times> nat) processedEvent \<Rightarrow> bool" where
  "scoreLe a b \<longleftrightarrow>
     fst (pe_score a) \<le> fst (pe_score b) \<and> snd (pe_score a) \<le> snd (pe_score b)"

text \<open>
  Row \<open>b\<close>, placed right after row \<open>a\<close>, is neither an extra point nor a two-point
  conversion of the side of \<open>a\<close>.
\<close>

definition notMergeable ::
  "('tm, nat \<times> nat) processedEvent \<Rightarrow> ('tm, nat \<times> nat) processedEvent \<Rightarrow> bool" where
  "notMergeable a b \<longleftrightarrow>
     pe_scoreType b \<noteq> Some ''XP'' \<and> \<not> (pe_scoreType b = Some ''2P'' \<and> pe_t b = pe_t a)"

subsection \<open>Three events of one drive\<close>

definition ev_rush :: "string ScoringSummaryEvent" where
  "ev_rush =
     \<lparr>sse_hide = False, sse_quarter = ''Q1'', sse_t = T0, sse_text = ''rushed for 5 yards'',
      sse_time = ''12:30'', sse_type = ''text''\<rparr>"

definition ev_td :: "string ScoringSummaryEvent" where
  "ev_td =
     \<lparr>sse_hide = False, sse_quarter = ''Q1'', sse_t = T0,
      sse_text = ''rushed for 2 yards and a touchdown!'', sse_time = ''11:45'',
      sse_type = ''text''\<rparr>"

definition ev_xp :: "string ScoringSummaryEvent" where
  "ev_xp =
     \<lparr>sse_hide = False, sse_quarter = ''Q1'', sse_t = T0, sse_text = ''made the extra point'',
      sse_time = ''11:45'', sse_type = ''text''\<rparr>"

subsection \<open>The guards of logEvent as a table\<close>

text \<open>
  The fields that the branch of each type of play guards with a throw before it writes its
  text, in the order of the guards. A type that is not in the table has no phrasing rule.
\<close>

definition guardTable :: "(string \<times> string list) list" where
  "guardTable =
     [(''injury'', [''names'']),
      (''quarter'', [''quarter'']),
      (''overtime'', []),
      (''kickoff'', [''names'', ''yds'']),
      (''kickoffReturn'', [''names'', ''yds'']),
      (''punt'', [''names'', ''yds'']),
      (''puntReturn'', [''names'', ''yds'']),
      (''extraPoint'', [''names'']),
      (''fieldGoal'', [''names'', ''yds'']),
      (''fumble'', [''names'']),
      (''fumbleRecovery'', [''names'', ''td'', ''yds'']),
      (''interception'', [''names'', ''td'', ''yds'']),
      (''sack'', [''names'', ''yds'']),
      (''dropback'', [''names'']),
      (''passComplete'', [''names'', ''td'']),
      (''passIncomplete'', [''names'']),
      (''handoff'', [''names'']),
      (''run'', [''names'', ''td''])]"

definition guardedFields :: "string \<Rightarrow> string list option" where
  "guardedFields type = map_of guardTable type"

definition fieldMissing :: "args \<Rightarrow> string \<Rightarrow> bool" where
  "fieldMissing f name \<longleftrightarrow>
     (name = ''names'' \<and> arg_names f = None) \<or> (name = ''quarter'' \<and> arg_quarter f = None)
     \<or> (name = ''yds'' \<and> arg_yds f = None) \<or> (name = ''td'' \<and> arg_td f = None)"

text \<open>
  The error that the guards give for a call, if any: no phrasing rule for the type, or the
  first guarded field that is missing.
\<close>

definition guardError :: "string \<Rightarrow> args \<Rightarrow> error option" where
  "guardError type f =
     (case guardedFields type of
        None \<Rightarrow> Some (NoText type)
      | Some req \<Rightarrow>
          (case filter (fieldMissing f) req of
             [] \<Rightarrow> None
           | name # _ \<Rightarrow> Some (Missing name)))"

subsection \<open>A call that carries every field of its type\<close>

text \<open>
  The fields that the branch of each type of play reads, flags and the second participant
  included: what a call must carry so that no reading of "required field" finds one
  missing. The branches of a run and of a completed pass read the yardage, which they do
  not guard.
\<close>

definition usedTable :: "(string \<times> string list) list" where
  "usedTable =
     [(''injury'', [''names[0]'']),
      (''quarter'', [''quarter'']),
      (''overtime'', []),
      (''kickoff'', [''names[0]'', ''yds'', ''touchback'']),
      (''kickoffReturn'', [''names[0]'', ''yds'', ''td'']),
      (''punt'', [''names[0]'', ''yds'', ''touchback'']),
      (''puntReturn'', [''names[0]'', ''yds'', ''td'']),
      (''extraPoint'', [''names[0]'', ''made'']),
      (''fieldGoal'', [''names[0]'', ''yds'', ''made'']),
      (''fumble'', [''names[0]'']),
      (''fumbleRecovery'',
         [''names[0]'', ''td'', ''yds'', ''safety'', ''touchback'', ''lost'']),
      (''interception'', [''names[0]'', ''td'', ''yds'']),
      (''sack'', [''names[0]'', ''names[1]'', ''yds'', ''safety'']),
      (''dropback'', [''names[0]'']),
      (''passComplete'', [''names[0]'', ''names[1]'', ''td'', ''yds'', ''safety'']),
      (''passIncomplete'', [''names[0]'', ''names[1]'']),
      (''handoff'', [''names[0]'', ''names[1]'']),
      (''run'', [''names[0]'', ''td'', ''yds'', ''safety''])]"

definition carried :: "args \<Rightarrow> string \<Rightarrow> bool" where
  "carried f name \<longleftrightarrow>
     (name = ''names[0]'' \<and> (case arg_names f of None \<Rightarrow> False | Some ns \<Rightarrow> 0 < length ns))
     \<or> (name = ''names[1]'' \<and> (case arg_names f of None \<Rightarrow> False | Some ns \<Rightarrow> 1 < length ns))
     \<or> (name = ''quarter'' \<and> arg_quarter f \<noteq> None)
     \<or> (name = ''yds'' \<and> arg_yds f \<noteq> None)
     \<or> (name = ''td'' \<and> arg_td f \<noteq> None)
     \<or> (name = ''touchback'' \<and> arg_touchback f \<noteq> None)
     \<or> (name = ''made'' \<and> arg_made f \<noteq> None)
     \<or> (name = ''safety'' \<and> arg_safety f \<noteq> None)
     \<or> (name = ''lost'' \<and> arg_lost f \<noteq> None)"

text \<open>The type has a phrasing rule and the call carries every field of the type.\<close>

definition complete :: "string \<Rightarrow> args \<Rightarrow> bool" where
  "complete type f \<longleftrightarrow>
     (case map_of usedTable type of
        None \<Rightarrow> False
      | Some used \<Rightarrow> list_all (carried f) used)"

text \<open>
  The plays that resolve a pending attempt: a true touchdown flag on a play whose text uses
  the touchdown phrase, that is a fumble recovery without safety or touchback, an
  interception, a completed pass without safety, or a run without safety.
\<close>

definition resolves :: "string \<Rightarrow> args \<Rightarrow> bool" where
  "resolves type f \<longleftrightarrow>
     truthy (arg_td f) \<and>
     (type = ''fumbleRecovery'' \<and> \<not> truthy (arg_safety f) \<and> \<not> truthy (arg_touchback f)
      \<or> type = ''interception''
      \<or> type = ''passComplete'' \<and> \<not> truthy (arg_safety f)
      \<or> type = ''run'' \<and> \<not> truthy (arg_safety f))"

text \<open>A text with a character that does not occur in "Two point conversion failed".\<close>

definition foreign :: "string \<Rightarrow> bool" where
  "foreign s \<longleftrightarrow> \<not> set s \<subseteq> set ''Two point conversion failed''"

text \<open>The entry synthesized for a failed attempt, from the logger before the call.\<close>

definition failedEntry :: "PlayByPlayLogger \<Rightarrow> event" where
  "failedEntry s =
     \<lparr>ev_type = ''text'', ev_text = ''Two point conversion failed'',
      ev_t = twoPointConversionTeam s, ev_time = timeOf (last (playByPlay s)),
      ev_quarter = quarter s\<rparr>"

text \<open>
  The entries that a call with arguments \<open>f\<close> synthesizes on logger \<open>s\<close> before it looks at
  its own play.
\<close>

definition closing :: "args \<Rightarrow> PlayByPlayLogger \<Rightarrow> event list" where
  "closing f s =
     (if arg_twoPointConversionTeam f = None \<and> twoPointConversionState s = Some Attempting
         \<and> playByPlay s \<noteq> []
      then [failedEntry s] else [])"

text \<open>The condition under which \<^verbatim>\<open>logEvent\<close> pushes its entry to the scoring summary.\<close>

definition scoreAffecting :: "string \<Rightarrow> args \<Rightarrow> bool" where
  "scoreAffecting type f \<longleftrightarrow>
     truthy (arg_safety f) \<or> truthy (arg_td f) \<or> type = ''extraPoint''
     \<or> (truthy (arg_made f) \<and> type = ''fieldGoal'')"

text \<open>The entry of a call's own play, with text \<open>body\<close> and quarter label \<open>q\<close>.\<close>

definition ownEntry :: "args \<Rightarrow> string \<Rightarrow> string \<Rightarrow> event" where
  "ownEntry f body q =
     \<lparr>ev_type = ''text'', ev_text = body, ev_t = arg_t f,
      ev_time = Some (formatTime (arg_clock f)), ev_quarter = q\<rparr>"

subsection \<open>Concrete calls\<close>

text \<open>
  Modelled from the spec: \<^verbatim>\<open>helpers.ordinal\<close> is not among the sources and the specification
  only says that quarters are rendered with "ordinal formatting". The English ordinal below
  stands in for it in the concrete runs; the general theorems hold for any function in its
  place.
\<close>

definition ordinal :: "int \<Rightarrow> string" where
  "ordinal n =
     showInt n @
       (if n mod 100 = 11 \<or> n mod 100 = 12 \<or> n mod 100 = 13 then ''th''
        else if n mod 10 = 1 then ''st''
        else if n mod 10 = 2 then ''nd''
        else if n mod 10 = 3 then ''rd''
        else ''th'')"

definition noArgs :: args where
  "noArgs =
     \<lparr>arg_clock = 12, arg_lost = None, arg_made = None, arg_names = None, arg_quarter = None,
      arg_safety = None, arg_t = None, arg_td = None, arg_touchback = None,
      arg_twoPointConversionTeam = None, arg_yds = None\<rparr>"

text \<open>A missed extra point by team 0 with 3:30 on the clock.\<close>

definition missedKick :: args where
  "missedKick =
     noArgs\<lparr>arg_clock := 7 / 2, arg_made := Some False, arg_names := Some [''Kicker''],
       arg_t := Some 0\<rparr>"

text \<open>A run by team 0 on its own two-point attempt that does not reach the end zone.\<close>

definition stoppedRun :: args where
  "stoppedRun =
     noArgs\<lparr>arg_names := Some [''Back''], arg_t := Some 0, arg_td := Some False,
       arg_twoPointConversionTeam := Some 0, arg_yds := Some 1\<rparr>"

text \<open>The same run tagged with team 1 as the converting team.\<close>

definition otherTagRun :: args where
  "otherTagRun = stoppedRun\<lparr>arg_twoPointConversionTeam := Some 1\<rparr>"

text \<open>A kickoff return tagged with team 0 as the converting team, with a true touchdown flag.\<close>

definition taggedReturn :: args where
  "taggedReturn =
     noArgs\<lparr>arg_names := Some [''Returner''], arg_t := Some 0, arg_td := Some True,
       arg_twoPointConversionTeam := Some 0, arg_yds := Some 100\<rparr>"

text \<open>An untagged dropback by team 1.\<close>

definition nextDropback :: args where
  "nextDropback = noArgs\<lparr>arg_names := Some [''Passer''], arg_t := Some 1\<rparr>"

text \<open>
  A new logger after the stopped run; after the stopped run and the run with the other tag;
  and after the dropback that follows both.
\<close>

definition attemptLogger :: PlayByPlayLogger where
  "attemptLogger = snd (logEvents ordinal (constructor True) [(''run'', stoppedRun)])"

definition overlapLogger :: PlayByPlayLogger where
  "overlapLogger =
     snd (logEvents ordinal (constructor True) [(''run'', stoppedRun), (''run'', otherTagRun)])"

definition closedLogger :: PlayByPlayLogger where
  "closedLogger = snd (logEvent ordinal ''dropback'' nextDropback overlapLogger)"

text \<open>An untagged run by team 0 that carries no yardage.\<close>

definition runWithoutYards :: args where
  "runWithoutYards =
     noArgs\<lparr>arg_names := Some [''Back''], arg_t := Some 0, arg_td := Some False\<rparr>"

section \<open>Properties of processEvents\<close>

subsection \<open>The store and the values agree\<close>

text \<open>\<open>includesStr\<close> is the search for a contiguous occurrence.\<close>

lemma includesStr_iff: "includesStr s sub \<longleftrightarrow> (\<exists>p q. s = p @ sub @ q)"
proof (induction s)
  case Nil
  then show ?case by auto
next
  case (Cons c cs)
  show ?case
  proof
    assume "includesStr (c # cs) sub"
    then consider "prefix sub (c # cs)" | "includesStr cs sub" by auto
    then show "\<exists>p q. c # cs = p @ sub @ q"
    proof cases
      case 1
      then obtain q where "c # cs = sub @ q" by (auto simp: prefix_def)
      then have "c # cs = [] @ sub @ q" by simp
      then show ?thesis by blast
    next
      case 2
      then obtain p q where "cs = p @ sub @ q" using Cons.IH by blast
      then have "c # cs = (c # p) @ sub @ q" by simp
      then show ?thesis by blast
    qed
  next
    assume "\<exists>p q. c # cs = p @ sub @ q"
    then obtain p q where pq: "c # cs = p @ sub @ q" by blast
    show "includesStr (c # cs) sub"
    proof (cases p)
      case Nil
      then have "prefix sub (c # cs)" using pq by (simp add: prefix_def)
      then show ?thesis by simp
    next
      case (Cons a p')
      then have "cs = p' @ sub @ q" using pq by simp
      then have "includesStr cs sub" using Cons.IH by blast
      then show ?thesis by simp
    qed
  qed
qed

text \<open>
  The store keeps the rows' arrays apart from the running score and from each other, and
  the loop over the store computes what the loop over values computes.
\<close>

lemma storeInv_ne: "storeInv h \<Longrightarrow> r \<in> set (processedEvents h) \<Longrightarrow> pe_score r \<noteq> score"
  by (auto simp: storeInv_def)

lemma storeInv_lt:
  "storeInv h \<Longrightarrow> r \<in> set (processedEvents h) \<Longrightarrow> pe_score r \<noteq> fresh h"
  by (auto simp: storeInv_def)

lemma storeInv_score: "storeInv h \<Longrightarrow> fresh h \<noteq> score"
  by (auto simp: storeInv_def)

lemma bump_inv: "storeInv h \<Longrightarrow> storeInv (bump t n h)"
  by (simp add: storeInv_def bump_def)

lemma bump_view:
  assumes "storeInv h"
  shows "viewOf (bump t n h) = (addScore t n (fst (viewOf h)), snd (viewOf h))"
proof -
  have "readRow (bump t n h) r = readRow h r" if "r \<in> set (processedEvents h)" for r
    using storeInv_ne [OF assms that] by (simp add: readRow_def bump_def)
  then have "map (readRow (bump t n h)) (processedEvents h) = map (readRow h) (processedEvents h)"
    by simp
  moreover have "processedEvents (bump t n h) = processedEvents h"
    by (simp add: bump_def)
  moreover have "arrays (bump t n h) score = addScore t n (arrays h score)"
    by (simp add: bump_def)
  ultimately show ?thesis by (simp add: viewOf_def)
qed

lemma scoreStep_inv: "storeInv h \<Longrightarrow> storeInv (snd (scoreStep e h))"
  by (simp add: scoreStep_def bump_inv)

lemma scoreStep_rows: "processedEvents (snd (scoreStep e h)) = processedEvents h"
  by (simp add: scoreStep_def bump_def)

lemma scoreStep_view:
  "storeInv h \<Longrightarrow>
     (fst (scoreStep e h), viewOf (snd (scoreStep e h))) =
     (fst (scoreStepV e (fst (viewOf h))), snd (scoreStepV e (fst (viewOf h))), snd (viewOf h))"
  by (simp add: scoreStep_def scoreStepV_def bump_view)

lemma mergeIntoPrev_inv:
  assumes "storeInv h" "processedEvents h \<noteq> []"
  shows "storeInv (mergeIntoPrev e h)"
proof -
  have "score < pe_score r \<and> pe_score r < Suc (fresh h)" if "r \<in> set (butlast (processedEvents h))" for r
    using assms(1) in_set_butlastD [OF that] by (auto simp: storeInv_def)
  moreover have "score < fresh h" using assms(1) by (simp add: storeInv_def)
  ultimately show ?thesis
    by (auto simp: storeInv_def mergeIntoPrev_def slice_def Let_def)
qed

lemma mergeIntoPrev_view:
  assumes "storeInv h" "processedEvents h \<noteq> []"
  shows "viewOf (mergeIntoPrev e h) =
     (fst (viewOf h),
      butlast (snd (viewOf h)) @
        [(last (snd (viewOf h)))\<lparr>pe_score := fst (viewOf h),
            pe_text := pe_text (last (snd (viewOf h))) @ '' ('' @ sse_text e @ '')''\<rparr>])"
proof -
  let ?rs = "processedEvents h"
  let ?h' = "snd (slice score h)"
  have old: "readRow ?h' r = readRow h r" if "r \<in> set ?rs" for r
    using storeInv_lt [OF assms(1) that] by (simp add: slice_def readRow_def)
  have sc: "arrays ?h' score = arrays h score"
    using storeInv_score [OF assms(1)] by (simp add: slice_def)
  have new: "arrays ?h' (fresh h) = arrays h score"
    by (simp add: slice_def)
  have "map (readRow ?h') (butlast ?rs) = map (readRow h) (butlast ?rs)"
    using old by (simp add: in_set_butlastD)
  then have bl: "map (readRow ?h') (butlast ?rs) = butlast (map (readRow h) ?rs)"
    by (simp add: map_butlast)
  have lst: "last (map (readRow h) ?rs) = readRow h (last ?rs)"
    using assms(2) by (simp add: last_map)
  have rows: "processedEvents (mergeIntoPrev e h) =
      butlast ?rs @ [(last ?rs)\<lparr>pe_score := fresh h,
         pe_text := pe_text (last ?rs) @ '' ('' @ sse_text e @ '')''\<rparr>]"
    by (simp add: mergeIntoPrev_def slice_def Let_def)
  have arr: "arrays (mergeIntoPrev e h) = arrays ?h'"
    by (simp add: mergeIntoPrev_def slice_def Let_def)
  have rr: "readRow (mergeIntoPrev e h) = readRow ?h'"
    using arr by (simp add: readRow_def fun_eq_iff)
  show ?thesis
    unfolding viewOf_def rows rr arr
    using sc new bl lst by (simp add: readRow_def)
qed


lemma pushRow_inv:
  assumes "storeInv h"
  shows "storeInv (pushRow e ty h)"
  using assms by (auto simp: storeInv_def pushRow_def deepCopy_def Let_def)

lemma pushRow_view:
  assumes "storeInv h"
  shows "viewOf (pushRow e ty h) =
     (fst (viewOf h),
      snd (viewOf h) @
        [\<lparr>pe_t = sse_t e, pe_quarter = sse_quarter e, pe_time = sse_time e,
          pe_text = sse_text e, pe_score = fst (viewOf h), pe_scoreType = ty\<rparr>])"
proof -
  let ?rs = "processedEvents h"
  let ?h' = "snd (deepCopy score h)"
  have old: "readRow ?h' r = readRow h r" if "r \<in> set ?rs" for r
    using storeInv_lt [OF assms(1) that] by (simp add: deepCopy_def readRow_def)
  have sc: "arrays ?h' score = arrays h score"
    using storeInv_score [OF assms(1)] by (simp add: deepCopy_def)
  have new: "arrays ?h' (fresh h) = arrays h score"
    by (simp add: deepCopy_def)
  have m: "map (readRow ?h') ?rs = map (readRow h) ?rs"
    using old by simp
  have rows: "processedEvents (pushRow e ty h) =
      ?rs @ [\<lparr>pe_t = sse_t e, pe_quarter = sse_quarter e, pe_time = sse_time e,
          pe_text = sse_text e, pe_score = fresh h, pe_scoreType = ty\<rparr>]"
    by (simp add: pushRow_def deepCopy_def Let_def)
  have arr: "arrays (pushRow e ty h) = arrays ?h'"
    by (simp add: pushRow_def deepCopy_def Let_def)
  have rr: "readRow (pushRow e ty h) = readRow ?h'"
    using arr by (simp add: readRow_def fun_eq_iff)
  show ?thesis
    unfolding viewOf_def rows rr arr
    using sc new m by (simp add: readRow_def)
qed

lemma loopBody_alt:
  "loopBody h0 e =
     (if sse_hide e then h0
      else
        (let ty = fst (scoreStep e h0); h = snd (scoreStep e h0) in
         if processedEvents h \<noteq> [] \<and> ty = Some ''XP'' then mergeIntoPrev e h
         else if processedEvents h \<noteq> [] \<and> ty = Some ''2P''
                 \<and> sse_t e = pe_t (last (processedEvents h)) then mergeIntoPrev e h
         else pushRow e ty h))"
  by (simp add: loopBody_def Let_def split: prod.splits)

lemma loopBodyV_alt:
  "loopBodyV st e =
     (if sse_hide e then st
      else
        (let ty = fst (scoreStepV e (fst st)); sc' = snd (scoreStepV e (fst st)); rows = snd st in
         if rows \<noteq> [] \<and> ty = Some ''XP'' then
           (sc', butlast rows @ [(last rows)\<lparr>pe_score := sc',
                 pe_text := pe_text (last rows) @ '' ('' @ sse_text e @ '')''\<rparr>])
         else if rows \<noteq> [] \<and> ty = Some ''2P'' \<and> sse_t e = pe_t (last rows) then
           (sc', butlast rows @ [(last rows)\<lparr>pe_score := sc',
                 pe_text := pe_text (last rows) @ '' ('' @ sse_text e @ '')''\<rparr>])
         else
           (sc', rows @ [\<lparr>pe_t = sse_t e, pe_quarter = sse_quarter e, pe_time = sse_time e,
                pe_text = sse_text e, pe_score = sc', pe_scoreType = ty\<rparr>])))"
  by (simp add: loopBodyV_def Let_def split: prod.splits)

lemma viewOf_rows_empty: "snd (viewOf h) = [] \<longleftrightarrow> processedEvents h = []"
  by (simp add: viewOf_def)

lemma viewOf_last_t:
  "processedEvents h \<noteq> [] \<Longrightarrow> pe_t (last (snd (viewOf h))) = pe_t (last (processedEvents h))"
  by (simp add: viewOf_def last_map readRow_def)

lemma loopBody_inv: "storeInv h \<Longrightarrow> storeInv (loopBody h e)"
  by (simp add: loopBody_alt Let_def scoreStep_inv mergeIntoPrev_inv pushRow_inv)

lemma loopBody_view:
  assumes "storeInv h"
  shows "viewOf (loopBody h e) = loopBodyV (viewOf h) e"
proof (cases "sse_hide e")
  case True
  then show ?thesis by (simp add: loopBody_alt loopBodyV_alt)
next
  case False
  let ?h = "snd (scoreStep e h)"
  have inv: "storeInv ?h" using assms by (rule scoreStep_inv)
  have v: "fst (scoreStep e h) = fst (scoreStepV e (fst (viewOf h)))"
      "fst (viewOf ?h) = snd (scoreStepV e (fst (viewOf h)))"
      "snd (viewOf ?h) = snd (viewOf h)"
    using scoreStep_view [OF assms, of e] by simp_all
  have e: "processedEvents ?h = [] \<longleftrightarrow> snd (viewOf h) = []"
    using v(3) viewOf_rows_empty [of ?h] by simp
  have t: "processedEvents ?h \<noteq> [] \<Longrightarrow>
      pe_t (last (processedEvents ?h)) = pe_t (last (snd (viewOf h)))"
    using viewOf_last_t [of ?h] v(3) by simp
  show ?thesis
  proof (cases "processedEvents ?h = []")
    case True
    then show ?thesis
      using False e v pushRow_view [OF inv]
      by (simp add: loopBody_alt loopBodyV_alt Let_def)
  next
    case ne: False
    then show ?thesis
      using False e v t pushRow_view [OF inv] mergeIntoPrev_view [OF inv ne]
      by (simp add: loopBody_alt loopBodyV_alt Let_def)
  qed
qed

lemma foldl_view:
  "storeInv h \<Longrightarrow> viewOf (foldl loopBody h evs) = foldl loopBodyV (viewOf h) evs"
  by (induction evs arbitrary: h) (simp_all add: loopBody_inv loopBody_view)

lemma processEvents_value: "processEvents evs = snd (foldl loopBodyV ((0, 0), []) evs)"
proof -
  have "storeInv (initStore :: 'a store)" by (simp add: storeInv_def initStore_def)
  then have "viewOf (foldl loopBody (initStore :: 'a store) evs)
      = foldl loopBodyV (viewOf (initStore :: 'a store)) evs"
    by (rule foldl_view)
  moreover have "viewOf (initStore :: 'a store) = ((0, 0), [])"
    by (simp add: viewOf_def initStore_def)
  ultimately have "viewOf (foldl loopBody (initStore :: 'a store) evs)
      = foldl loopBodyV ((0, 0), []) evs"
    by simp
  then have "snd (viewOf (foldl loopBody (initStore :: 'a store) evs))
      = snd (foldl loopBodyV ((0, 0), []) evs)"
    by simp
  then show ?thesis
    by (simp add: processEvents_def Let_def viewOf_def)
qed


lemma addScore_zero: "addScore t 0 sc = sc"
  by (cases t; cases sc) simp_all

lemma scoreStepV_spec:
  "scoreStepV e sc = (specScoreType (sse_text e), addScore (sse_t e) (specPoints (sse_text e)) sc)"
  by (simp add: scoreStepV_def specScoreType_def specPoints_def addScore_zero)

lemma runningScore_value: "runningScore evs = fst (foldl loopBodyV ((0, 0), []) evs)"
proof -
  have "storeInv (initStore :: 'a store)" by (simp add: storeInv_def initStore_def)
  then have "viewOf (foldl loopBody (initStore :: 'a store) evs)
      = foldl loopBodyV (viewOf (initStore :: 'a store)) evs"
    by (rule foldl_view)
  moreover have "viewOf (initStore :: 'a store) = ((0, 0), [])"
    by (simp add: viewOf_def initStore_def)
  ultimately have "viewOf (foldl loopBody (initStore :: 'a store) evs)
      = foldl loopBodyV ((0, 0), []) evs"
    by simp
  then have "fst (viewOf (foldl loopBody (initStore :: 'a store) evs))
      = fst (foldl loopBodyV ((0, 0), []) evs)"
    by simp
  then show ?thesis
    by (simp add: runningScore_def viewOf_def)
qed

lemma value_pair:
  "foldl loopBodyV ((0, 0), []) evs = (runningScore evs, processEvents evs)"
  by (simp add: runningScore_value processEvents_value)

lemma runningScore_snoc:
  "runningScore (evs @ [e]) =
     (if sse_hide e then runningScore evs
      else addScore (sse_t e) (specPoints (sse_text e)) (runningScore evs))"
proof -
  have "runningScore (evs @ [e]) = fst (loopBodyV (runningScore evs, processEvents evs) e)"
    by (simp add: runningScore_value [of "evs @ [e]"] value_pair)
  then show ?thesis
    by (simp add: loopBodyV_alt scoreStepV_spec Let_def)
qed

lemma processEvents_snoc:
  "processEvents (evs @ [e]) =
     (let rows = processEvents evs; sc = runningScore (evs @ [e]) in
      if sse_hide e then rows
      else if rows \<noteq> [] \<and> specScoreType (sse_text e) = Some ''XP'' then
        butlast rows @
          [(last rows)\<lparr>pe_score := sc,
             pe_text := pe_text (last rows) @ '' ('' @ sse_text e @ '')''\<rparr>]
      else if rows \<noteq> [] \<and> specScoreType (sse_text e) = Some ''2P''
              \<and> sse_t e = pe_t (last rows) then
        butlast rows @
          [(last rows)\<lparr>pe_score := sc,
             pe_text := pe_text (last rows) @ '' ('' @ sse_text e @ '')''\<rparr>]
      else
        rows @ [\<lparr>pe_t = sse_t e, pe_quarter = sse_quarter e, pe_time = sse_time e,
                 pe_text = sse_text e, pe_score = sc,
                 pe_scoreType = specScoreType (sse_text e)\<rparr>])"
proof -
  have "processEvents (evs @ [e]) = snd (loopBodyV (runningScore evs, processEvents evs) e)"
    by (simp add: processEvents_value [of "evs @ [e]"] value_pair)
  then show ?thesis
    by (simp add: loopBodyV_alt scoreStepV_spec Let_def runningScore_snoc)
qed

lemma processEvents_Nil: "processEvents [] = []"
  by (simp add: processEvents_value)

lemma runningScore_Nil: "runningScore [] = (0, 0)"
  by (simp add: runningScore_value)

lemma runningScore_last:
  "processEvents evs \<noteq> [] \<Longrightarrow> pe_score (last (processEvents evs)) = runningScore evs"
proof (induction evs rule: rev_induct)
  case Nil
  then show ?case by (simp add: processEvents_Nil)
next
  case (snoc e evs)
  show ?case
  proof (cases "sse_hide e")
    case True
    then have "processEvents (evs @ [e]) = processEvents evs" "runningScore (evs @ [e]) = runningScore evs"
      by (simp_all add: processEvents_snoc runningScore_snoc Let_def)
    then show ?thesis using snoc by simp
  next
    case False
    then show ?thesis
      by (simp add: processEvents_snoc [of evs e] Let_def)
  qed
qed

subsection \<open>The claims about processEvents\<close>

lemma processEvents_nonempty: "\<not> sse_hide e \<Longrightarrow> processEvents (evs @ [e]) \<noteq> []"
  by (simp add: processEvents_snoc Let_def)

text \<open>
  Claim C2. For every event that is not hidden, the running score after the event is the
  running score before it plus the points that the classification in the specification's
  words gives to the event's text, on the event's side: 1 for "extra point" with "made", 3
  for "field goal" with "made", 6 for "touchdown", 2 for "two point" in any capitalisation
  without "failed", 0 otherwise; of the four phrases, taken in this order, the first one
  that occurs in the text decides. The last returned row carries that running score.
\<close>

theorem processEvents_score_effect:
  assumes "\<not> sse_hide e"
  shows "runningScore (evs @ [e]) =
           addScore (sse_t e) (specPoints (sse_text e)) (runningScore evs)
         \<and> pe_score (last (processEvents (evs @ [e]))) = runningScore (evs @ [e])"
  using assms runningScore_last [OF processEvents_nonempty [OF assms, of evs]]
  by (simp add: runningScore_snoc)

theorem processEvents_score_effect_witness:
  "\<not> sse_hide ev_td
   \<and> runningScore ([ev_rush] @ [ev_td]) =
       addScore (sse_t ev_td) (specPoints (sse_text ev_td)) (runningScore [ev_rush])
   \<and> pe_score (last (processEvents ([ev_rush] @ [ev_td]))) = runningScore ([ev_rush] @ [ev_td])
   \<and> runningScore ([ev_rush] @ [ev_td]) = (6, 0)"
proof -
  have h: "\<not> sse_hide ev_td" by (simp add: ev_td_def)
  have v: "runningScore ([ev_rush] @ [ev_td]) = (6, 0)" by code_simp
  show ?thesis
    using h v processEvents_score_effect [OF h, of "[ev_rush]"] by simp
qed

lemma processEvents_snoc_shape:
  "processEvents (evs @ [e]) = processEvents evs
   \<or> (\<exists>x. processEvents (evs @ [e]) = butlast (processEvents evs) @ [x])
   \<or> (\<exists>x. processEvents (evs @ [e]) = processEvents evs @ [x])"
  unfolding processEvents_snoc [of evs e] Let_def by simp

lemma butlast_step:
  "prefix (butlast (processEvents evs)) (butlast (processEvents (evs @ [e])))"
proof -
  from processEvents_snoc_shape [of evs e]
  consider "processEvents (evs @ [e]) = processEvents evs"
    | x where "processEvents (evs @ [e]) = butlast (processEvents evs) @ [x]"
    | x where "processEvents (evs @ [e]) = processEvents evs @ [x]"
    by blast
  then show ?thesis
  proof cases
    case 1
    then show ?thesis by simp
  next
    case 2
    then show ?thesis by simp
  next
    case 3
    then show ?thesis by (simp add: prefixeq_butlast)
  qed
qed

lemma butlast_steps:
  "prefix (butlast (processEvents evs)) (butlast (processEvents (evs @ later)))"
proof (induction later rule: rev_induct)
  case Nil
  then show ?case by simp
next
  case (snoc e later)
  have "prefix (butlast (processEvents (evs @ later)))
          (butlast (processEvents ((evs @ later) @ [e])))"
    by (rule butlast_step)
  with snoc have "prefix (butlast (processEvents evs))
          (butlast (processEvents ((evs @ later) @ [e])))"
    by (rule prefix_order.trans)
  then show ?case by simp
qed

lemma snapshot_stable:
  "prefix (butlast (processEvents evs)) (processEvents (evs @ later))"
  using butlast_steps [of evs later] prefixeq_butlast [of "processEvents (evs @ later)"]
  by (rule prefix_order.trans)


text \<open>
  The phrases are matched as they are written, except the two-point phrase: a capitalised
  "Touchdown" scores nothing, a capitalised "TWO POINT" scores 2, and the synthesized
  failure text scores nothing.
\<close>

lemma classification_examples:
  "specPoints ''Touchdown by the offense'' = 0"
  "specPoints ''TWO POINT conversion is good'' = 2"
  "specPoints ''Two point conversion failed'' = 0"
  "specPoints ''Kicker missed the extra point'' = 0"
  "specPoints ''Kicker made a 40 yard field goal'' = 3"
  by code_simp+

text \<open>
  Claim C3. An event that is not hidden is merged into the previous row when there is one
  and the event is an extra point, whatever its side, or a two-point conversion of the
  previous row's side: its text is appended in parentheses and the row's snapshot becomes
  the updated running score. In every other case a new row with the running score as its
  snapshot is pushed. Whatever events follow, every row but the last one stays as it is:
  later changes of the running score do not reach a snapshot.
\<close>

theorem processEvents_merge_rule:
  assumes "\<not> sse_hide e"
  shows "processEvents (evs @ [e]) =
     (let rows = processEvents evs; sc = runningScore (evs @ [e]) in
      if rows \<noteq> [] \<and> specScoreType (sse_text e) = Some ''XP'' then
        butlast rows @
          [(last rows)\<lparr>pe_score := sc,
             pe_text := pe_text (last rows) @ '' ('' @ sse_text e @ '')''\<rparr>]
      else if rows \<noteq> [] \<and> specScoreType (sse_text e) = Some ''2P''
              \<and> sse_t e = pe_t (last rows) then
        butlast rows @
          [(last rows)\<lparr>pe_score := sc,
             pe_text := pe_text (last rows) @ '' ('' @ sse_text e @ '')''\<rparr>]
      else
        rows @ [\<lparr>pe_t = sse_t e, pe_quarter = sse_quarter e, pe_time = sse_time e,
                 pe_text = sse_text e, pe_score = sc,
                 pe_scoreType = specScoreType (sse_text e)\<rparr>])
   \<and> prefix (butlast (processEvents (evs @ [e]))) (processEvents ((evs @ [e]) @ later))"
  using assms snapshot_stable [of "evs @ [e]" later]
  by (simp add: processEvents_snoc [of evs e] Let_def)

theorem processEvents_merge_rule_witness:
  "\<not> sse_hide ev_xp
   \<and> processEvents ([ev_rush, ev_td] @ [ev_xp]) =
       butlast (processEvents [ev_rush, ev_td]) @
         [(last (processEvents [ev_rush, ev_td]))\<lparr>pe_score := (7, 0),
            pe_text := ''rushed for 2 yards and a touchdown! (made the extra point)''\<rparr>]
   \<and> prefix (butlast (processEvents ([ev_rush, ev_td] @ [ev_xp])))
        (processEvents (([ev_rush, ev_td] @ [ev_xp]) @ [ev_rush]))"
proof -
  have h: "\<not> sse_hide ev_xp" by (simp add: ev_xp_def)
  have rows: "processEvents [ev_rush, ev_td] \<noteq> []" by code_simp
  have ty: "specScoreType (sse_text ev_xp) = Some ''XP''" by code_simp
  have sc: "runningScore ([ev_rush, ev_td] @ [ev_xp]) = (7, 0)" by code_simp
  have tx: "pe_text (last (processEvents [ev_rush, ev_td])) @ '' ('' @ sse_text ev_xp @ '')''
      = ''rushed for 2 yards and a touchdown! (made the extra point)''"
    by code_simp
  note inst = processEvents_merge_rule [OF h, of "[ev_rush, ev_td]" "[ev_rush]"]
  have eq: "processEvents ([ev_rush, ev_td] @ [ev_xp]) =
       butlast (processEvents [ev_rush, ev_td]) @
         [(last (processEvents [ev_rush, ev_td]))\<lparr>pe_score := (7, 0),
            pe_text := ''rushed for 2 yards and a touchdown! (made the extra point)''\<rparr>]"
    using inst [THEN conjunct1] rows ty unfolding Let_def sc tx by simp
  from h eq inst [THEN conjunct2] show ?thesis
    by - (intro conjI, assumption+)
qed

lemma sorted_wrt_snoc: "sorted_wrt P (xs @ [x]) \<longleftrightarrow> sorted_wrt P xs \<and> (\<forall>y\<in>set xs. P y x)"
  by (simp add: sorted_wrt_append)

lemma addScore_ge: "fst sc \<le> fst (addScore t n sc) \<and> snd sc \<le> snd (addScore t n sc)"
  by (cases t; cases sc) simp_all

lemma runningScore_mono:
  "fst (runningScore evs) \<le> fst (runningScore (evs @ [e]))
   \<and> snd (runningScore evs) \<le> snd (runningScore (evs @ [e]))"
  by (simp add: runningScore_snoc addScore_ge)

lemma rows_below_running:
  "sorted_wrt scoreLe (processEvents evs)
   \<and> (\<forall>r \<in> set (processEvents evs).
        fst (pe_score r) \<le> fst (runningScore evs) \<and> snd (pe_score r) \<le> snd (runningScore evs))"
proof (induction evs rule: rev_induct)
  case Nil
  then show ?case by (simp add: processEvents_Nil)
next
  case (snoc e evs)
  let ?rows = "processEvents evs"
  let ?sc = "runningScore (evs @ [e])"
  have mono: "fst (runningScore evs) \<le> fst ?sc \<and> snd (runningScore evs) \<le> snd ?sc"
    by (rule runningScore_mono)
  have below: "fst (pe_score r) \<le> fst ?sc \<and> snd (pe_score r) \<le> snd ?sc"
    if "r \<in> set ?rows" for r
    using snoc that mono by (meson le_trans)
  have srt: "sorted_wrt scoreLe ?rows" using snoc by simp
  have bl: "sorted_wrt scoreLe (butlast ?rows)"
    using srt by (metis append_butlast_last_id butlast.simps(1) sorted_wrt_append)
  from processEvents_snoc [of evs e]
  consider "processEvents (evs @ [e]) = ?rows" "?sc = runningScore evs"
    | x where "processEvents (evs @ [e]) = butlast ?rows @ [x]" "pe_score x = ?sc"
    | x where "processEvents (evs @ [e]) = ?rows @ [x]" "pe_score x = ?sc"
    unfolding Let_def by (cases "sse_hide e") (auto simp: runningScore_snoc split: if_splits)
  then show ?case
  proof cases
    case 1
    then show ?thesis using snoc by simp
  next
    case 2
    have "\<forall>y \<in> set (butlast ?rows). scoreLe y x"
      using below 2(2) by (auto simp: scoreLe_def dest: in_set_butlastD)
    moreover have "\<forall>r \<in> set (butlast ?rows @ [x]).
        fst (pe_score r) \<le> fst ?sc \<and> snd (pe_score r) \<le> snd ?sc"
      using below 2(2) by (auto dest: in_set_butlastD)
    ultimately show ?thesis using 2(1) bl by (simp add: sorted_wrt_snoc)
  next
    case 3
    have "\<forall>y \<in> set ?rows. scoreLe y x"
      using below 3(2) by (auto simp: scoreLe_def)
    moreover have "\<forall>r \<in> set (?rows @ [x]).
        fst (pe_score r) \<le> fst ?sc \<and> snd (pe_score r) \<le> snd ?sc"
      using below 3(2) by auto
    ultimately show ?thesis using 3(1) srt by (simp add: sorted_wrt_snoc)
  qed
qed


lemma successively_snoc:
  "successively P (xs @ [x]) \<longleftrightarrow> successively P xs \<and> (xs = [] \<or> P (last xs) x)"
  by (simp add: successively_append_iff)

lemma successively_replace_last:
  assumes "successively P xs" "xs \<noteq> []" "\<And>a. P a (last xs) \<Longrightarrow> P a x"
  shows "successively P (butlast xs @ [x])"
proof -
  have "successively P (butlast xs @ [last xs])" using assms(1,2) by simp
  then have "successively P (butlast xs) \<and> (butlast xs = [] \<or> P (last (butlast xs)) (last xs))"
    by (simp only: successively_snoc)
  then show ?thesis using assms(3) by (auto simp: successively_snoc)
qed

lemma rows_not_mergeable: "successively notMergeable (processEvents evs)"
proof (induction evs rule: rev_induct)
  case Nil
  then show ?case by (simp add: processEvents_Nil)
next
  case (snoc e evs)
  let ?rows = "processEvents evs"
  show ?case
  proof (cases "sse_hide e")
    case True
    then show ?thesis using snoc by (simp add: processEvents_snoc [of evs e] Let_def)
  next
    case False
    let ?m = "?rows \<noteq> [] \<and> (specScoreType (sse_text e) = Some ''XP''
         \<or> specScoreType (sse_text e) = Some ''2P'' \<and> sse_t e = pe_t (last ?rows))"
    show ?thesis
    proof (cases ?m)
      case True
      let ?x = "(last ?rows)\<lparr>pe_score := runningScore (evs @ [e]),
             pe_text := pe_text (last ?rows) @ '' ('' @ sse_text e @ '')''\<rparr>"
      have eq: "processEvents (evs @ [e]) = butlast ?rows @ [?x]"
        using False True unfolding processEvents_snoc [of evs e] Let_def by auto
      have "successively notMergeable (butlast ?rows @ [?x])"
      proof (rule successively_replace_last [OF snoc])
        show "?rows \<noteq> []" using True by simp
        show "notMergeable a ?x" if "notMergeable a (last ?rows)" for a
          using that by (simp add: notMergeable_def)
      qed
      then show ?thesis using eq by simp
    next
      case nm: False
      let ?x = "\<lparr>pe_t = sse_t e, pe_quarter = sse_quarter e, pe_time = sse_time e,
                 pe_text = sse_text e, pe_score = runningScore (evs @ [e]),
                 pe_scoreType = specScoreType (sse_text e)\<rparr>"
      have eq: "processEvents (evs @ [e]) = ?rows @ [?x]"
        using False nm unfolding processEvents_snoc [of evs e] Let_def by auto
      have "?rows = [] \<or> notMergeable (last ?rows) ?x"
        using nm by (auto simp: notMergeable_def)
      then show ?thesis using eq snoc by (simp add: successively_snoc)
    qed
  qed
qed

text \<open>
  Claim C8. In the returned rows both components of the snapshot are non-decreasing from
  each row to every later one; no row after the first is an extra point, and no row is a
  two-point conversion of the side of the row before it; an event that is not hidden and
  is an extra point with a previous row, or a two-point conversion of the previous row's
  side, leaves the number of rows as it is and extends the text of the last row.
\<close>

theorem processEvents_rows_invariant:
  "sorted_wrt scoreLe (processEvents evs)
   \<and> successively notMergeable (processEvents evs)
   \<and> (\<not> sse_hide e \<and> processEvents evs \<noteq> []
        \<and> (specScoreType (sse_text e) = Some ''XP''
            \<or> specScoreType (sse_text e) = Some ''2P''
               \<and> sse_t e = pe_t (last (processEvents evs)))
      \<longrightarrow> length (processEvents (evs @ [e])) = length (processEvents evs)
          \<and> pe_text (last (processEvents (evs @ [e])))
              = pe_text (last (processEvents evs)) @ '' ('' @ sse_text e @ '')'')"
proof -
  have "sorted_wrt scoreLe (processEvents evs)"
    using rows_below_running [of evs] by simp
  moreover have "successively notMergeable (processEvents evs)"
    by (rule rows_not_mergeable)
  moreover have "length (processEvents (evs @ [e])) = length (processEvents evs)
          \<and> pe_text (last (processEvents (evs @ [e])))
              = pe_text (last (processEvents evs)) @ '' ('' @ sse_text e @ '')''"
    if "\<not> sse_hide e" "processEvents evs \<noteq> []"
       "specScoreType (sse_text e) = Some ''XP''
            \<or> specScoreType (sse_text e) = Some ''2P''
               \<and> sse_t e = pe_t (last (processEvents evs))"
    using that unfolding processEvents_snoc [of evs e] Let_def by auto
  ultimately show ?thesis by blast
qed

theorem processEvents_rows_invariant_witness:
  "sorted_wrt scoreLe (processEvents [ev_rush, ev_td])
   \<and> successively notMergeable (processEvents [ev_rush, ev_td])
   \<and> \<not> sse_hide ev_xp \<and> processEvents [ev_rush, ev_td] \<noteq> []
   \<and> specScoreType (sse_text ev_xp) = Some ''XP''
   \<and> length (processEvents ([ev_rush, ev_td] @ [ev_xp])) = length (processEvents [ev_rush, ev_td])
   \<and> pe_text (last (processEvents ([ev_rush, ev_td] @ [ev_xp])))
       = pe_text (last (processEvents [ev_rush, ev_td])) @ '' ('' @ sse_text ev_xp @ '')''"
proof -
  have h: "\<not> sse_hide ev_xp" by (simp add: ev_xp_def)
  have rows: "processEvents [ev_rush, ev_td] \<noteq> []" by code_simp
  have ty: "specScoreType (sse_text ev_xp) = Some ''XP''" by code_simp
  show ?thesis
    using h rows ty processEvents_rows_invariant [of "[ev_rush, ev_td]" ev_xp] by blast
qed

text \<open>
  Claim C10. When an event is merged into the previous row, the rows before it stay as
  they are and the row keeps its side, quarter, time and score type.
\<close>

theorem processEvents_merge_frame:
  assumes "\<not> sse_hide e" "processEvents evs \<noteq> []"
    and "specScoreType (sse_text e) = Some ''XP''
         \<or> specScoreType (sse_text e) = Some ''2P'' \<and> sse_t e = pe_t (last (processEvents evs))"
  shows "butlast (processEvents (evs @ [e])) = butlast (processEvents evs)
     \<and> pe_t (last (processEvents (evs @ [e]))) = pe_t (last (processEvents evs))
     \<and> pe_quarter (last (processEvents (evs @ [e]))) = pe_quarter (last (processEvents evs))
     \<and> pe_time (last (processEvents (evs @ [e]))) = pe_time (last (processEvents evs))
     \<and> pe_scoreType (last (processEvents (evs @ [e]))) = pe_scoreType (last (processEvents evs))"
  using assms unfolding processEvents_snoc [of evs e] Let_def by auto

theorem processEvents_merge_frame_witness:
  "\<not> sse_hide ev_xp \<and> processEvents [ev_rush, ev_td] \<noteq> []
   \<and> specScoreType (sse_text ev_xp) = Some ''XP''
   \<and> butlast (processEvents ([ev_rush, ev_td] @ [ev_xp])) = butlast (processEvents [ev_rush, ev_td])
   \<and> pe_t (last (processEvents ([ev_rush, ev_td] @ [ev_xp]))) = T0
   \<and> pe_quarter (last (processEvents ([ev_rush, ev_td] @ [ev_xp]))) = ''Q1''
   \<and> pe_time (last (processEvents ([ev_rush, ev_td] @ [ev_xp]))) = ''11:45''
   \<and> pe_scoreType (last (processEvents ([ev_rush, ev_td] @ [ev_xp]))) = Some ''TD''"
proof -
  have h: "\<not> sse_hide ev_xp" by (simp add: ev_xp_def)
  have rows: "processEvents [ev_rush, ev_td] \<noteq> []" by code_simp
  have ty: "specScoreType (sse_text ev_xp) = Some ''XP''" by code_simp
  have l: "last (processEvents [ev_rush, ev_td]) =
      \<lparr>pe_t = T0, pe_quarter = ''Q1'', pe_time = ''11:45'',
       pe_text = ''rushed for 2 yards and a touchdown!'', pe_score = (6, 0),
       pe_scoreType = Some ''TD''\<rparr>"
    by code_simp
  show ?thesis
    using h rows ty l processEvents_merge_frame [OF h rows disjI1 [OF ty]] by simp
qed

text \<open>
  Claim C9, as stated, fails: the three events give two rows, since the first event, which
  scores nothing, is not hidden and gets a row of its own.
\<close>

theorem processEvents_concrete_two_rows:
  "length (processEvents [ev_rush, ev_td, ev_xp]) = 2"
  by code_simp

text \<open>
  Claim C9, amended. The three events, all of side 0 and none hidden, give two rows: one
  for "rushed for 5 yards" with snapshot [0, 0] and no score type, and one of side 0 with
  snapshot [7, 0], score type TD and the touchdown's text followed by the extra point's
  text in parentheses.
\<close>

theorem processEvents_concrete_rows:
  "processEvents
     [\<lparr>sse_hide = False, sse_quarter = q1, sse_t = T0, sse_text = ''rushed for 5 yards'',
       sse_time = tm1, sse_type = ty1\<rparr>,
      \<lparr>sse_hide = False, sse_quarter = q2, sse_t = T0,
       sse_text = ''rushed for 2 yards and a touchdown!'', sse_time = tm2, sse_type = ty2\<rparr>,
      \<lparr>sse_hide = False, sse_quarter = q3, sse_t = T0, sse_text = ''made the extra point'',
       sse_time = tm3, sse_type = ty3\<rparr>]
   = [\<lparr>pe_t = T0, pe_quarter = q1, pe_time = tm1, pe_text = ''rushed for 5 yards'',
       pe_score = (0, 0), pe_scoreType = None\<rparr>,
      \<lparr>pe_t = T0, pe_quarter = q2, pe_time = tm2,
       pe_text = ''rushed for 2 yards and a touchdown! (made the extra point)'',
       pe_score = (7, 0), pe_scoreType = Some ''TD''\<rparr>]"
  by (simp add: processEvents_value loopBodyV_def scoreStepV_def toLowerCase_def lowerChar_def Let_def)

section \<open>Properties of the logger\<close>

lemmas branch_defs = onInjury_def onQuarter_def onOvertime_def onKickoff_def onKickoffReturn_def
  onPunt_def onPuntReturn_def onExtraPoint_def onFieldGoal_def onFumble_def onFumbleRecovery_def
  onInterception_def onSack_def onDropback_def onPassComplete_def onPassIncomplete_def
  onHandoff_def onRun_def

lemma type_cases:
  assumes "ty = ''injury'' \<Longrightarrow> P" "ty = ''quarter'' \<Longrightarrow> P" "ty = ''overtime'' \<Longrightarrow> P"
    "ty = ''kickoff'' \<Longrightarrow> P" "ty = ''kickoffReturn'' \<Longrightarrow> P" "ty = ''punt'' \<Longrightarrow> P"
    "ty = ''puntReturn'' \<Longrightarrow> P" "ty = ''extraPoint'' \<Longrightarrow> P" "ty = ''fieldGoal'' \<Longrightarrow> P"
    "ty = ''fumble'' \<Longrightarrow> P" "ty = ''fumbleRecovery'' \<Longrightarrow> P" "ty = ''interception'' \<Longrightarrow> P"
    "ty = ''sack'' \<Longrightarrow> P" "ty = ''dropback'' \<Longrightarrow> P" "ty = ''passComplete'' \<Longrightarrow> P"
    "ty = ''passIncomplete'' \<Longrightarrow> P" "ty = ''handoff'' \<Longrightarrow> P" "ty = ''run'' \<Longrightarrow> P"
    "guardedFields ty = None \<Longrightarrow> P"
  shows P
proof (cases "guardedFields ty")
  case None
  then show ?thesis by (rule assms(19))
next
  case (Some a)
  then have "ty \<in> fst ` set guardTable"
    unfolding guardedFields_def by (metis map_of_eq_None_iff option.distinct(1))
  then have "ty = ''injury'' \<or> ty = ''quarter'' \<or> ty = ''overtime'' \<or> ty = ''kickoff''
     \<or> ty = ''kickoffReturn'' \<or> ty = ''punt'' \<or> ty = ''puntReturn'' \<or> ty = ''extraPoint''
     \<or> ty = ''fieldGoal'' \<or> ty = ''fumble'' \<or> ty = ''fumbleRecovery'' \<or> ty = ''interception''
     \<or> ty = ''sack'' \<or> ty = ''dropback'' \<or> ty = ''passComplete'' \<or> ty = ''passIncomplete''
     \<or> ty = ''handoff'' \<or> ty = ''run''"
    unfolding guardTable_def by simp
  then show ?thesis
    by - (elim disjE; (rule assms(1-18), assumption))
qed

lemma guardedFields_None:
  assumes "guardedFields ty = None"
  shows "narrate ord ty f tt sy s = Inr (None, s)"
proof -
  have "ty \<notin> fst ` set guardTable"
    using assms unfolding guardedFields_def by (simp add: map_of_eq_None_iff)
  then show ?thesis
    unfolding guardTable_def narrate_def by simp
qed


lemma narrate_throws:
  assumes "guardedFields ty \<noteq> None" "guardError ty f = Some e"
  shows "narrate ord ty f tt sy s = Inl e"
  using assms
  by (cases ty rule: type_cases)
     (simp_all add: narrate_def branch_defs guardError_def guardedFields_def guardTable_def
        fieldMissing_def split: option.splits if_splits)


lemma update_fields [simp]:
  "playByPlay (updateTwoPointConversionState td s) = playByPlay s"
  "scoringSummary (updateTwoPointConversionState td s) = scoringSummary s"
  "active (updateTwoPointConversionState td s) = active s"
  "quarter (updateTwoPointConversionState td s) = quarter s"
  "twoPointConversionTeam (updateTwoPointConversionState td s) = twoPointConversionTeam s"
  "twoPointConversionState (updateTwoPointConversionState td s) =
     (if truthy td \<and> twoPointConversionState s = Some Attempting then Some Converted
      else twoPointConversionState s)"
  by (simp_all add: updateTwoPointConversionState_def)

lemma foreign_append: "foreign (a @ b) \<longleftrightarrow> foreign a \<or> foreign b"
  by (auto simp: foreign_def)

lemma foreign_Cons: "foreign (c # cs) \<longleftrightarrow> c \<notin> set ''Two point conversion failed'' \<or> foreign cs"
  by (auto simp: foreign_def)

lemma foreign_Nil: "\<not> foreign []"
  by (simp add: foreign_def)

lemma narrate_ok:
  assumes "guardError ty f = None"
  shows "\<exists>txt s2. narrate ord ty f tt sy s = Inr (Some txt, s2) \<and> txt \<noteq> [] \<and> foreign txt
     \<and> playByPlay s2 = playByPlay s \<and> scoringSummary s2 = scoringSummary s
     \<and> active s2 = active s \<and> twoPointConversionTeam s2 = twoPointConversionTeam s
     \<and> twoPointConversionState s2 =
         (if resolves ty f \<and> twoPointConversionState s = Some Attempting then Some Converted
          else twoPointConversionState s)"
  using assms
  by (cases ty rule: type_cases)
     (auto simp: narrate_def branch_defs guardError_def guardedFields_def guardTable_def
        fieldMissing_def resolves_def foreign_append foreign_Cons descriptionYdsTD_def
        split: option.splits if_splits list.splits)


lemma twoPointStep_fields:
  "playByPlay (twoPointStep (arg_twoPointConversionTeam f) s)
     = playByPlay s @ map TextEntry (closing f s)"
  "scoringSummary (twoPointStep (arg_twoPointConversionTeam f) s) = scoringSummary s @ closing f s"
  "active (twoPointStep tag s) = active s"
  "quarter (twoPointStep tag s) = quarter s"
  "twoPointConversionState (twoPointStep tag s) =
     (if tag = None then None
      else if twoPointConversionState s = None then Some Attempting
      else twoPointConversionState s)"
  "twoPointConversionTeam (twoPointStep tag s) =
     (if tag = None then None
      else if twoPointConversionState s = None then tag
      else twoPointConversionTeam s)"
  by (auto simp: twoPointStep_def closing_def failedEntry_def Let_def split: option.splits)

lemma logEvent_throws:
  assumes "guardError ty f = Some e"
  shows "logEvent ord ty f s = (Some e, twoPointStep (arg_twoPointConversionTeam f) s)"
proof (cases "guardedFields ty")
  case None
  then have "e = NoText ty" using assms by (simp add: guardError_def)
  then show ?thesis
    using guardedFields_None [OF None]
    by (simp add: logEvent_def emit_def Let_def case_prod_beta)
next
  case (Some req)
  then have "guardedFields ty \<noteq> None" by simp
  from narrate_throws [OF this assms] show ?thesis
    by (simp add: logEvent_def Let_def case_prod_beta)
qed

lemma logEvent_ok:
  assumes "guardError ty f = None"
  shows "\<exists>txt s'. logEvent ord ty f s = (None, s') \<and> txt \<noteq> [] \<and> foreign txt
     \<and> playByPlay s' = playByPlay s @ map TextEntry (closing f s @ [ownEntry f txt (quarter s')])
     \<and> scoringSummary s' = scoringSummary s @ closing f s @
          (if scoreAffecting ty f then [ownEntry f txt (quarter s')] else [])
     \<and> active s' = active s
     \<and> twoPointConversionTeam s' =
          twoPointConversionTeam (twoPointStep (arg_twoPointConversionTeam f) s)
     \<and> twoPointConversionState s' =
          (if resolves ty f
              \<and> twoPointConversionState (twoPointStep (arg_twoPointConversionTeam f) s)
                  = Some Attempting
           then Some Converted
           else twoPointConversionState (twoPointStep (arg_twoPointConversionTeam f) s))"
proof -
  let ?s1 = "twoPointStep (arg_twoPointConversionTeam f) s"
  let ?tp = "touchdownPhrase (arg_twoPointConversionTeam f) (arg_t f)"
  from narrate_ok [OF assms, of ord "fst ?tp" "snd ?tp" "?s1"]
  obtain body s2 where nar: "narrate ord ty f (fst ?tp) (snd ?tp) ?s1 = Inr (Some body, s2)"
    and tx: "body \<noteq> []" "foreign body"
    and fr: "playByPlay s2 = playByPlay ?s1" "scoringSummary s2 = scoringSummary ?s1"
       "active s2 = active ?s1" "twoPointConversionTeam s2 = twoPointConversionTeam ?s1"
    and st: "twoPointConversionState s2 =
         (if resolves ty f \<and> twoPointConversionState ?s1 = Some Attempting then Some Converted
          else twoPointConversionState ?s1)"
    by blast
  have le: "logEvent ord ty f s = emit ty f (Some body) s2"
    using nar by (simp add: logEvent_def Let_def case_prod_beta)
  show ?thesis
  proof (cases "scoreAffecting ty f")
    case True
    then show ?thesis
      using tx fr st unfolding le
      by (simp add: emit_def Let_def scoreAffecting_def ownEntry_def twoPointStep_fields)
  next
    case False
    then show ?thesis
      using tx fr st unfolding le
      by (simp add: emit_def Let_def scoreAffecting_def ownEntry_def twoPointStep_fields)
  qed
qed

lemma foreign_failed: "foreign txt \<Longrightarrow> txt \<noteq> ''Two point conversion failed''"
  by (auto simp: foreign_def)

lemma logEvent_None:
  "fst (logEvent ord ty f s) = None \<longleftrightarrow> guardError ty f = None"
proof (cases "guardError ty f")
  case None
  then show ?thesis using logEvent_ok [OF None, of ord s] by auto
next
  case (Some e)
  then show ?thesis using logEvent_throws [OF Some, of ord s] by simp
qed

lemma logEvent_success:
  assumes "logEvent ord ty f s = (None, s')"
  obtains body where "body \<noteq> []" "foreign body"
    "playByPlay s' = playByPlay s @ map TextEntry (closing f s @ [ownEntry f body (quarter s')])"
    "scoringSummary s' = scoringSummary s @ closing f s @
          (if scoreAffecting ty f then [ownEntry f body (quarter s')] else [])"
    "active s' = active s"
    "twoPointConversionTeam s' =
          twoPointConversionTeam (twoPointStep (arg_twoPointConversionTeam f) s)"
    "twoPointConversionState s' =
          (if resolves ty f
              \<and> twoPointConversionState (twoPointStep (arg_twoPointConversionTeam f) s)
                  = Some Attempting
           then Some Converted
           else twoPointConversionState (twoPointStep (arg_twoPointConversionTeam f) s))"
proof -
  have "guardError ty f = None"
    using assms logEvent_None [of ord ty f s] by simp
  from logEvent_ok [OF this, of ord s] assms that show ?thesis
    by auto
qed

lemma twoPointStep_active:
  "twoPointStep tag (s\<lparr>active := b\<rparr>) = (twoPointStep tag s)\<lparr>active := b\<rparr>"
  by (simp add: twoPointStep_def Let_def split: option.splits)

lemma update_active:
  "updateTwoPointConversionState td (s\<lparr>active := b\<rparr>)
     = (updateTwoPointConversionState td s)\<lparr>active := b\<rparr>"
  by (simp add: updateTwoPointConversionState_def)

lemma narrate_active:
  "narrate ord ty f tt sy (s\<lparr>active := b\<rparr>)
     = map_sum id (apsnd (\<lambda>s. s\<lparr>active := b\<rparr>)) (narrate ord ty f tt sy s)"
proof (cases "guardedFields ty")
  case None
  then show ?thesis by (simp add: guardedFields_None)
next
  case (Some req)
  show ?thesis
  proof (cases "ty = ''quarter''")
    case True
    then show ?thesis by (simp add: narrate_def onQuarter_def split: option.split)
  next
    case False
    with Some show ?thesis
      by (cases ty rule: type_cases)
         (simp_all split del: if_split cong: if_cong option.case_cong
            add: narrate_def branch_defs
              update_active if_distrib [of "map_sum id (apsnd (\<lambda>s. s\<lparr>active := b\<rparr>))"]
              option.case_distrib [of "map_sum id (apsnd (\<lambda>s. s\<lparr>active := b\<rparr>))"])
  qed
qed

lemma emit_active:
  "emit ty f body (s\<lparr>active := b\<rparr>) = apsnd (\<lambda>s. s\<lparr>active := b\<rparr>) (emit ty f body s)"
  by (simp add: emit_def Let_def)

lemma logEvent_active:
  "logEvent ord ty f (s\<lparr>active := b\<rparr>) = apsnd (\<lambda>s. s\<lparr>active := b\<rparr>) (logEvent ord ty f s)"
  by (simp add: logEvent_def Let_def case_prod_beta twoPointStep_active narrate_active emit_active
        split: sum.splits)

lemma success_last_entry:
  assumes "logEvent ord ty f s = (None, s')"
  shows "\<exists>e. playByPlay s' \<noteq> [] \<and> last (playByPlay s') = TextEntry e \<and> ev_quarter e = quarter s'"
  using assms by (rule logEvent_success) (simp add: ownEntry_def)

lemma tagged_step:
  assumes "logEvent ord ty f s = (None, s')" "arg_twoPointConversionTeam f = Some Y"
  shows "twoPointConversionState s' =
           Some (if twoPointConversionState s = Some Converted \<or> resolves ty f
                 then Converted else Attempting)"
    and "twoPointConversionTeam s' =
           (if twoPointConversionState s = None then Some Y else twoPointConversionTeam s)"
proof -
  from assms(1) obtain body where
    t: "twoPointConversionTeam s' =
          twoPointConversionTeam (twoPointStep (arg_twoPointConversionTeam f) s)"
    and st: "twoPointConversionState s' =
          (if resolves ty f
              \<and> twoPointConversionState (twoPointStep (arg_twoPointConversionTeam f) s)
                  = Some Attempting
           then Some Converted
           else twoPointConversionState (twoPointStep (arg_twoPointConversionTeam f) s))"
    by (rule logEvent_success)
  show "twoPointConversionTeam s' =
           (if twoPointConversionState s = None then Some Y else twoPointConversionTeam s)"
    using t assms(2) by (simp add: twoPointStep_fields)
  show "twoPointConversionState s' =
           Some (if twoPointConversionState s = Some Converted \<or> resolves ty f
                 then Converted else Attempting)"
  proof (cases "twoPointConversionState s")
    case None
    then show ?thesis using st assms(2) by (simp add: twoPointStep_fields)
  next
    case (Some a)
    then show ?thesis using st assms(2) by (cases a) (simp_all add: twoPointStep_fields)
  qed
qed

lemma tagged_run:
  assumes "logEvents ord s calls = (None, s')"
    and "\<forall>c \<in> set calls. arg_twoPointConversionTeam (snd c) \<noteq> None"
    and "twoPointConversionState s \<noteq> None"
  shows "twoPointConversionTeam s' = twoPointConversionTeam s
     \<and> twoPointConversionState s' =
         Some (if twoPointConversionState s = Some Converted
                  \<or> (\<exists>c \<in> set calls. resolves (fst c) (snd c))
               then Converted else Attempting)
     \<and> (calls \<noteq> [] \<longrightarrow>
          (\<exists>e. playByPlay s' \<noteq> [] \<and> last (playByPlay s') = TextEntry e
             \<and> ev_quarter e = quarter s'))"
  using assms
proof (induction calls arbitrary: s)
  case Nil
  then show ?case by (cases "the (twoPointConversionState s)") auto
next
  case (Cons c calls)
  obtain ty f where c: "c = (ty, f)" by (cases c)
  obtain r s1 where step: "logEvent ord ty f s = (r, s1)" by (cases "logEvent ord ty f s")
  have r: "r = None" and rest: "logEvents ord s1 calls = (None, s')"
    using Cons.prems(1) step c by (auto split: option.splits)
  from Cons.prems(2) c obtain Y where tag: "arg_twoPointConversionTeam f = Some Y" by auto
  note st = tagged_step [OF step [unfolded r] tag]
  have ne: "twoPointConversionState s1 \<noteq> None" using st(1) by simp
  have tags: "\<forall>c \<in> set calls. arg_twoPointConversionTeam (snd c) \<noteq> None"
    using Cons.prems(2) by simp
  note ih = Cons.IH [OF rest tags ne]
  have team: "twoPointConversionTeam s' = twoPointConversionTeam s"
    using ih st(2) Cons.prems(3) by simp
  have state: "twoPointConversionState s' =
         Some (if twoPointConversionState s = Some Converted
                  \<or> (\<exists>c \<in> set ((ty, f) # calls). resolves (fst c) (snd c))
               then Converted else Attempting)"
    using ih st(1) by auto
  have "\<exists>e. playByPlay s' \<noteq> [] \<and> last (playByPlay s') = TextEntry e \<and> ev_quarter e = quarter s'"
  proof (cases "calls = []")
    case True
    then have "s' = s1" using rest by simp
    then show ?thesis using success_last_entry [OF step [unfolded r]] by simp
  next
    case False
    then show ?thesis using ih by simp
  qed
  then show ?case using team state c by simp
qed

lemma untagged_call:
  assumes "arg_twoPointConversionTeam f = None" "logEvent ord ty f s = (r, s')"
  shows "twoPointConversionState s' = None \<and> twoPointConversionTeam s' = None
     \<and> (\<exists>own. length own \<le> 1 \<and> (\<forall>e \<in> set own. ev_text e \<noteq> ''Two point conversion failed'')
          \<and> playByPlay s' = playByPlay s @ map TextEntry (closing f s @ own)
          \<and> scoringSummary s' =
              scoringSummary s @ closing f s @ (if scoreAffecting ty f then own else []))"
proof (cases "guardError ty f")
  case (Some e)
  from logEvent_throws [OF Some, of ord s] assms
  have eq: "s' = twoPointStep (arg_twoPointConversionTeam f) s" by simp
  have logs: "playByPlay s' = playByPlay s @ map TextEntry (closing f s @ [])
      \<and> scoringSummary s' = scoringSummary s @ closing f s @ (if scoreAffecting ty f then [] else [])"
    unfolding eq by (simp add: twoPointStep_fields)
  have "twoPointConversionState s' = None \<and> twoPointConversionTeam s' = None"
    unfolding eq using assms(1) by (simp add: twoPointStep_fields)
  with logs have "twoPointConversionState s' = None \<and> twoPointConversionTeam s' = None
      \<and> playByPlay s' = playByPlay s @ map TextEntry (closing f s @ [])
      \<and> scoringSummary s' = scoringSummary s @ closing f s @ (if scoreAffecting ty f then [] else [])"
    by simp
  then show ?thesis
    by (intro conjI exI [of _ "[]"]) simp_all
next
  case None
  then have "r = None" using logEvent_None [of ord ty f s] assms(2) by simp
  with assms(2) have "logEvent ord ty f s = (None, s')" by simp
  then obtain body where b: "foreign body"
    "playByPlay s' = playByPlay s @ map TextEntry (closing f s @ [ownEntry f body (quarter s')])"
    "scoringSummary s' = scoringSummary s @ closing f s @
          (if scoreAffecting ty f then [ownEntry f body (quarter s')] else [])"
    "twoPointConversionTeam s' =
          twoPointConversionTeam (twoPointStep (arg_twoPointConversionTeam f) s)"
    "twoPointConversionState s' =
          (if resolves ty f
              \<and> twoPointConversionState (twoPointStep (arg_twoPointConversionTeam f) s)
                  = Some Attempting
           then Some Converted
           else twoPointConversionState (twoPointStep (arg_twoPointConversionTeam f) s))"
    by (rule logEvent_success)
  have tx: "ev_text (ownEntry f body (quarter s')) \<noteq> ''Two point conversion failed''"
    using foreign_failed [OF b(1)] by (simp add: ownEntry_def)
  have "twoPointConversionState s' = None \<and> twoPointConversionTeam s' = None"
    using b(4,5) assms(1) by (simp add: twoPointStep_fields)
  then show ?thesis
    using b(2,3) tx
    by (intro conjI exI [of _ "[ownEntry f body (quarter s')]"]) simp_all
qed

lemma complete_guards:
  assumes "complete ty f"
  shows "guardError ty f = None"
proof (cases "guardedFields ty")
  case None
  then have "ty \<notin> fst ` set guardTable"
    unfolding guardedFields_def by (simp add: map_of_eq_None_iff)
  then have "map_of usedTable ty = None"
    unfolding guardTable_def usedTable_def by simp
  then show ?thesis using assms by (simp add: complete_def)
next
  case (Some req)
  then show ?thesis
    using assms
    by (cases ty rule: type_cases)
       (auto simp: complete_def usedTable_def carried_def guardError_def guardedFields_def
          guardTable_def fieldMissing_def split: option.splits)
qed

subsection \<open>The claims about logEvent\<close>

text \<open>
  Claim C1, as stated, fails in its last part: a play with the converting team's tag and a
  true touchdown flag does not resolve the attempt unless it is one of the plays that use
  the touchdown phrase; after a tagged kickoff return for a touchdown the failure entry is
  still synthesized.
\<close>

theorem touchdown_flag_without_resolution:
  "arg_twoPointConversionTeam taggedReturn = Some 0 \<and> arg_td taggedReturn = Some True
   \<and> logEvents ordinal (constructor True)
       [(''kickoffReturn'', taggedReturn), (''dropback'', nextDropback)] =
     (None,
      \<lparr>active = True,
       playByPlay =
         [TextEntry \<lparr>ev_type = ''text'',
           ev_text = ''Returner returned the kickoff 100 yards for a touchdown!'',
           ev_t = Some 0, ev_time = Some ''12:00'', ev_quarter = ''Q1''\<rparr>,
          TextEntry \<lparr>ev_type = ''text'', ev_text = ''Two point conversion failed'', ev_t = Some 0,
           ev_time = Some ''12:00'', ev_quarter = ''Q1''\<rparr>,
          TextEntry \<lparr>ev_type = ''text'', ev_text = ''Passer drops back to pass'', ev_t = Some 1,
           ev_time = Some ''12:00'', ev_quarter = ''Q1''\<rparr>],
       scoringSummary =
         [\<lparr>ev_type = ''text'',
           ev_text = ''Returner returned the kickoff 100 yards for a touchdown!'',
           ev_t = Some 0, ev_time = Some ''12:00'', ev_quarter = ''Q1''\<rparr>,
          \<lparr>ev_type = ''text'', ev_text = ''Two point conversion failed'', ev_t = Some 0,
           ev_time = Some ''12:00'', ev_quarter = ''Q1''\<rparr>],
       twoPointConversionState = None, twoPointConversionTeam = None, quarter = ''Q1''\<rparr>)"
  by code_simp

text \<open>
  Claim C1, amended. Let an attempt start on a logger with no attempt pending, with a call
  tagged for team X, and let it go on through any number of tagged calls, all completing
  without error. Then the attempt is pending for X and the narration log is not empty. A
  later call without a tag closes the attempt, whether or not it fails: state and team are
  cleared. If none of the attempt's calls resolved it, that call appends exactly one entry
  "Two point conversion failed", of team X, with the time and quarter of the last entry
  logged before it, to both logs, before the entry of its own play, whose text is a
  different one. If one of them did, that is a call with a true touchdown flag that is a
  run or a completed pass without safety, an interception, or a fumble recovery without
  safety or touchback, the closing call appends the entry of its own play only.
\<close>

theorem twoPoint_attempt_closed:
  assumes idle: "twoPointConversionState s0 = None"
    and start: "arg_twoPointConversionTeam f0 = Some X"
    and tags: "\<forall>c \<in> set calls. arg_twoPointConversionTeam (snd c) \<noteq> None"
    and seg: "logEvents ord s0 ((ty0, f0) # calls) = (None, s)"
    and un: "arg_twoPointConversionTeam f = None"
    and res: "logEvent ord ty f s = (r, s')"
  shows "twoPointConversionTeam s = Some X
     \<and> twoPointConversionState s' = None \<and> twoPointConversionTeam s' = None
     \<and> (\<exists>prev own. playByPlay s \<noteq> [] \<and> last (playByPlay s) = TextEntry prev
          \<and> length own \<le> 1
          \<and> (\<forall>e \<in> set own. ev_text e \<noteq> ''Two point conversion failed'')
          \<and> (if \<exists>c \<in> set ((ty0, f0) # calls). resolves (fst c) (snd c)
             then twoPointConversionState s = Some Converted
                \<and> playByPlay s' = playByPlay s @ map TextEntry own
                \<and> scoringSummary s' =
                    scoringSummary s @ (if scoreAffecting ty f then own else [])
             else twoPointConversionState s = Some Attempting
                \<and> playByPlay s' =
                    playByPlay s @
                      map TextEntry
                        ([\<lparr>ev_type = ''text'', ev_text = ''Two point conversion failed'',
                           ev_t = Some X, ev_time = ev_time prev,
                           ev_quarter = ev_quarter prev\<rparr>] @ own)
                \<and> scoringSummary s' =
                    scoringSummary s @
                      [\<lparr>ev_type = ''text'', ev_text = ''Two point conversion failed'',
                        ev_t = Some X, ev_time = ev_time prev,
                        ev_quarter = ev_quarter prev\<rparr>] @
                      (if scoreAffecting ty f then own else [])))"
proof -
  let ?resolved = "\<exists>c \<in> set ((ty0, f0) # calls). resolves (fst c) (snd c)"
  obtain r1 s1 where step: "logEvent ord ty0 f0 s0 = (r1, s1)"
    by (cases "logEvent ord ty0 f0 s0")
  have r1: "r1 = None" and rest: "logEvents ord s1 calls = (None, s)"
    using seg step by (auto split: option.splits)
  note st = tagged_step [OF step [unfolded r1] start]
  have s1: "twoPointConversionState s1 = Some (if resolves ty0 f0 then Converted else Attempting)"
      "twoPointConversionTeam s1 = Some X"
    using st idle by simp_all
  have ne: "twoPointConversionState s1 \<noteq> None" using s1(1) by simp
  note run = tagged_run [OF rest tags ne]
  have team: "twoPointConversionTeam s = Some X" using run s1(2) by simp
  have state: "twoPointConversionState s = Some (if ?resolved then Converted else Attempting)"
    using run s1(1) by auto
  have "\<exists>e. playByPlay s \<noteq> [] \<and> last (playByPlay s) = TextEntry e \<and> ev_quarter e = quarter s"
  proof (cases "calls = []")
    case True
    then have "s = s1" using rest by simp
    then show ?thesis using success_last_entry [OF step [unfolded r1]] by simp
  next
    case False
    then show ?thesis using run by simp
  qed
  then obtain prev where prev: "playByPlay s \<noteq> []" "last (playByPlay s) = TextEntry prev"
      "ev_quarter prev = quarter s"
    by blast
  from untagged_call [OF un res] obtain own where
    cl: "twoPointConversionState s' = None" "twoPointConversionTeam s' = None"
    and own: "length own \<le> 1" "\<forall>e \<in> set own. ev_text e \<noteq> ''Two point conversion failed''"
      "playByPlay s' = playByPlay s @ map TextEntry (closing f s @ own)"
      "scoringSummary s' = scoringSummary s @ closing f s @ (if scoreAffecting ty f then own else [])"
    by blast
  have closing: "closing f s =
      (if ?resolved then []
       else [\<lparr>ev_type = ''text'', ev_text = ''Two point conversion failed'',
              ev_t = Some X, ev_time = ev_time prev, ev_quarter = ev_quarter prev\<rparr>])"
    using un state team prev by (simp add: closing_def failedEntry_def)
  show ?thesis
  proof (cases ?resolved)
    case True
    then show ?thesis
      using team prev(1,2) cl own state unfolding closing
      by (intro conjI exI [of _ own] exI [of _ prev]) simp_all
  next
    case False
    then show ?thesis
      using team prev(1,2) cl own state unfolding closing
      by (intro conjI exI [of _ own] exI [of _ prev]) simp_all
  qed
qed

theorem twoPoint_attempt_closed_witness:
  "twoPointConversionState (constructor True) = None
   \<and> arg_twoPointConversionTeam stoppedRun = Some 0
   \<and> arg_twoPointConversionTeam (snd (''run'', otherTagRun)) \<noteq> None
   \<and> logEvents ordinal (constructor True) ((''run'', stoppedRun) # [(''run'', otherTagRun)])
       = (None, overlapLogger)
   \<and> arg_twoPointConversionTeam nextDropback = None
   \<and> logEvent ordinal ''dropback'' nextDropback overlapLogger = (None, closedLogger)
   \<and> twoPointConversionTeam overlapLogger = Some 0
   \<and> twoPointConversionState closedLogger = None \<and> twoPointConversionTeam closedLogger = None
   \<and> map timeOf (playByPlay closedLogger)
       = [Some ''12:00'', Some ''12:00'', Some ''12:00'', Some ''12:00'']
   \<and> map ev_text (scoringSummary closedLogger) = [''Two point conversion failed'']"
proof -
  have h1: "twoPointConversionState (constructor True) = None" by code_simp
  have h2: "arg_twoPointConversionTeam stoppedRun = Some 0" by code_simp
  have h3: "\<forall>c \<in> set [(''run'', otherTagRun)]. arg_twoPointConversionTeam (snd c) \<noteq> None"
    by (simp add: otherTagRun_def)
  have h4: "logEvents ordinal (constructor True) ((''run'', stoppedRun) # [(''run'', otherTagRun)])
       = (None, overlapLogger)"
    by code_simp
  have h5: "arg_twoPointConversionTeam nextDropback = None" by code_simp
  have h6: "logEvent ordinal ''dropback'' nextDropback overlapLogger = (None, closedLogger)"
    by code_simp
  from twoPoint_attempt_closed [OF h1 h2 h3 h4 h5 h6]
  have c: "twoPointConversionTeam overlapLogger = Some 0
     \<and> twoPointConversionState closedLogger = None \<and> twoPointConversionTeam closedLogger = None"
    by simp
  have v: "map timeOf (playByPlay closedLogger)
       = [Some ''12:00'', Some ''12:00'', Some ''12:00'', Some ''12:00'']
     \<and> map ev_text (scoringSummary closedLogger) = [''Two point conversion failed'']"
    by code_simp
  have h3': "arg_twoPointConversionTeam (snd (''run'', otherTagRun)) \<noteq> None"
    using h3 by simp
  from h1 h2 h3' h4 h5 h6 c v show ?thesis by (intro conjI) simp_all
qed

text \<open>
  Claim C4, as stated, fails: a logger constructed inactive appends to the narration log.
\<close>

theorem inactive_logger_narrates:
  "active (constructor False) = False
   \<and> logEvent ordinal ''overtime'' noArgs (constructor False) =
       (None,
        \<lparr>active = False,
         playByPlay = [TextEntry \<lparr>ev_type = ''text'', ev_text = ''Start of overtime'', ev_t = None,
            ev_time = Some ''12:00'', ev_quarter = ''OT''\<rparr>],
         scoringSummary = [], twoPointConversionState = None, twoPointConversionTeam = None,
         quarter = ''OT''\<rparr>)"
  by code_simp

text \<open>
  Claim C4, amended. The active flag has no influence on a call of logEvent: on a logger
  that differs in the flag only, the call gives the same result and the same logs. A call
  that completes appends to the narration log whatever the flag is, and to the scoring-only
  log if the event is score-affecting. The flag is left as it is. What it decides is
  whether statistics are logged and whether the narration can be read: on an inactive
  logger logStat does nothing, and getPlayByPlay returns no value iff the logger is
  inactive.
\<close>

theorem logEvent_ignores_active:
  "logEvent ord ty f (s\<lparr>active := b\<rparr>)
     = (fst (logEvent ord ty f s), (snd (logEvent ord ty f s))\<lparr>active := b\<rparr>)
   \<and> (fst (logEvent ord ty f s) = None \<longrightarrow>
        length (playByPlay s) < length (playByPlay (snd (logEvent ord ty f s)))
        \<and> (scoreAffecting ty f \<longrightarrow>
             length (scoringSummary s) < length (scoringSummary (snd (logEvent ord ty f s)))))
   \<and> (getPlayByPlay boxScore (snd (logEvent ord ty f s)) = None \<longleftrightarrow> \<not> active s)
   \<and> (\<not> active s \<longrightarrow> logStat qtr t pid st amt s = s)"
proof -
  have a: "logEvent ord ty f (s\<lparr>active := b\<rparr>)
     = (fst (logEvent ord ty f s), (snd (logEvent ord ty f s))\<lparr>active := b\<rparr>)"
    by (simp add: logEvent_active apsnd_def map_prod_def case_prod_beta)
  have act: "active (snd (logEvent ord ty f s)) = active s"
  proof (cases "guardError ty f")
    case None
    then show ?thesis using logEvent_ok [OF None, of ord s] by auto
  next
    case (Some e)
    then show ?thesis
      using logEvent_throws [OF Some, of ord s] by (simp add: twoPointStep_fields)
  qed
  have grow: "length (playByPlay s) < length (playByPlay (snd (logEvent ord ty f s)))
        \<and> (scoreAffecting ty f \<longrightarrow>
             length (scoringSummary s) < length (scoringSummary (snd (logEvent ord ty f s))))"
    if "fst (logEvent ord ty f s) = None"
  proof -
    have "logEvent ord ty f s = (None, snd (logEvent ord ty f s))"
      using that by (simp add: prod_eq_iff)
    then show ?thesis
      by (rule logEvent_success) simp
  qed
  show ?thesis
    using a act grow by (simp add: getPlayByPlay_def logStat_def)
qed

theorem logEvent_ignores_active_witness:
  "fst (logEvent ordinal ''extraPoint'' missedKick (constructor True)) = None
   \<and> scoreAffecting ''extraPoint'' missedKick
   \<and> logEvent ordinal ''extraPoint'' missedKick ((constructor True)\<lparr>active := False\<rparr>)
       = (fst (logEvent ordinal ''extraPoint'' missedKick (constructor True)),
          (snd (logEvent ordinal ''extraPoint'' missedKick (constructor True)))\<lparr>active := False\<rparr>)
   \<and> length (playByPlay (constructor True))
       < length (playByPlay (snd (logEvent ordinal ''extraPoint'' missedKick (constructor True))))
   \<and> length (scoringSummary (constructor True))
       < length (scoringSummary (snd (logEvent ordinal ''extraPoint'' missedKick (constructor True))))"
proof -
  have h1: "fst (logEvent ordinal ''extraPoint'' missedKick (constructor True)) = None"
    by code_simp
  have h2: "scoreAffecting ''extraPoint'' missedKick" by (simp add: scoreAffecting_def)
  note inst = logEvent_ignores_active
      [where ord = ordinal and ty = "''extraPoint''" and f = missedKick
         and s = "constructor True" and b = False and boxScore = "()" and qtr = 1
         and t = 0 and pid = 0 and st = "''pss''" and amt = 1]
  note a = inst [THEN conjunct1]
  have g: "length (playByPlay (constructor True))
       < length (playByPlay (snd (logEvent ordinal ''extraPoint'' missedKick (constructor True))))
     \<and> (scoreAffecting ''extraPoint'' missedKick \<longrightarrow>
          length (scoringSummary (constructor True))
          < length (scoringSummary
              (snd (logEvent ordinal ''extraPoint'' missedKick (constructor True)))))"
    using inst [THEN conjunct2, THEN conjunct1] h1 by (rule mp)
  have k: "length (scoringSummary (constructor True))
          < length (scoringSummary
              (snd (logEvent ordinal ''extraPoint'' missedKick (constructor True))))"
    using g [THEN conjunct2] h2 by (rule mp)
  from h1 h2 a g [THEN conjunct1] k show ?thesis
    by - (intro conjI, assumption+)
qed

text \<open>
  Claim C5, as stated, fails: a missed extra point is pushed to the scoring summary.
\<close>

theorem missed_extra_point_logged:
  "logEvent ordinal ''extraPoint'' missedKick (constructor True) =
     (None,
      \<lparr>active = True,
       playByPlay = [TextEntry \<lparr>ev_type = ''text'', ev_text = ''Kicker missed the extra point'',
          ev_t = Some 0, ev_time = Some ''3:30'', ev_quarter = ''Q1''\<rparr>],
       scoringSummary = [\<lparr>ev_type = ''text'', ev_text = ''Kicker missed the extra point'',
          ev_t = Some 0, ev_time = Some ''3:30'', ev_quarter = ''Q1''\<rparr>],
       twoPointConversionState = None, twoPointConversionTeam = None, quarter = ''Q1''\<rparr>)"
  by code_simp

text \<open>
  Claim C5, amended. A call that completes without error appends the entry of its own play
  to the scoring summary iff the safety flag or the touchdown flag is true, or the play is
  an extra point, made or missed, or a made field goal. Before that entry, a call without a
  conversion tag appends the failed-conversion entry when an attempt is still pending. The
  entry of the play follows the same two steps in the narration log, where it is always
  appended.
\<close>

theorem scoringSummary_entry_rule:
  assumes "logEvent ord ty f s = (None, s')"
  shows "\<exists>own. playByPlay s' = playByPlay s @ map TextEntry (closing f s @ [own])
     \<and> scoringSummary s' = scoringSummary s @ closing f s @
          (if truthy (arg_safety f) \<or> truthy (arg_td f) \<or> ty = ''extraPoint''
              \<or> (truthy (arg_made f) \<and> ty = ''fieldGoal'')
           then [own] else [])
     \<and> ev_text own \<noteq> ''Two point conversion failed''"
proof -
  from assms obtain body where b: "foreign body"
    "playByPlay s' = playByPlay s @ map TextEntry (closing f s @ [ownEntry f body (quarter s')])"
    "scoringSummary s' = scoringSummary s @ closing f s @
          (if scoreAffecting ty f then [ownEntry f body (quarter s')] else [])"
    by (rule logEvent_success)
  have "ev_text (ownEntry f body (quarter s')) \<noteq> ''Two point conversion failed''"
    using foreign_failed [OF b(1)] by (simp add: ownEntry_def)
  with b(2,3) show ?thesis
    unfolding scoreAffecting_def by blast
qed

theorem scoringSummary_entry_rule_witness:
  "logEvent ordinal ''extraPoint'' missedKick (constructor True)
     = (None, snd (logEvent ordinal ''extraPoint'' missedKick (constructor True)))
   \<and> (\<exists>own.
        playByPlay (snd (logEvent ordinal ''extraPoint'' missedKick (constructor True)))
          = playByPlay (constructor True)
              @ map TextEntry (closing missedKick (constructor True) @ [own])
      \<and> scoringSummary (snd (logEvent ordinal ''extraPoint'' missedKick (constructor True)))
          = scoringSummary (constructor True) @ closing missedKick (constructor True) @ [own]
      \<and> ev_text own \<noteq> ''Two point conversion failed'')"
proof -
  have run: "logEvent ordinal ''extraPoint'' missedKick (constructor True)
     = (None, snd (logEvent ordinal ''extraPoint'' missedKick (constructor True)))"
    by code_simp
  from scoringSummary_entry_rule [OF run] run show ?thesis by simp
qed

text \<open>
  Claim C6, as stated, fails: a call tagged for team 1 while an attempt of team 0 is pending
  leaves the attempt as it is, and the failure entry of the closing call is attributed to
  team 0.
\<close>

theorem overlapping_tag_failure_attributed_to_first:
  "arg_twoPointConversionTeam stoppedRun = Some 0 \<and> arg_twoPointConversionTeam otherTagRun = Some 1
   \<and> logEvents ordinal (constructor True)
       [(''run'', stoppedRun), (''run'', otherTagRun), (''dropback'', nextDropback)] =
     (None,
      \<lparr>active = True,
       playByPlay =
         [TextEntry \<lparr>ev_type = ''text'', ev_text = ''Back rushed for 1 yards'', ev_t = Some 0,
           ev_time = Some ''12:00'', ev_quarter = ''Q1''\<rparr>,
          TextEntry \<lparr>ev_type = ''text'', ev_text = ''Back rushed for 1 yards'', ev_t = Some 0,
           ev_time = Some ''12:00'', ev_quarter = ''Q1''\<rparr>,
          TextEntry \<lparr>ev_type = ''text'', ev_text = ''Two point conversion failed'', ev_t = Some 0,
           ev_time = Some ''12:00'', ev_quarter = ''Q1''\<rparr>,
          TextEntry \<lparr>ev_type = ''text'', ev_text = ''Passer drops back to pass'', ev_t = Some 1,
           ev_time = Some ''12:00'', ev_quarter = ''Q1''\<rparr>],
       scoringSummary =
         [\<lparr>ev_type = ''text'', ev_text = ''Two point conversion failed'', ev_t = Some 0,
           ev_time = Some ''12:00'', ev_quarter = ''Q1''\<rparr>],
       twoPointConversionState = None, twoPointConversionTeam = None, quarter = ''Q1''\<rparr>)"
  by code_simp

text \<open>
  Claim C6, amended. When an attempt by team X is pending and unresolved and a later call
  carries a conversion tag for a team Y, completes and does not resolve the attempt, the
  pending state is left as it is, an attempt by X; a subsequent call without a tag
  attributes the synthesized "Two point conversion failed" entry to X.
\<close>

theorem overlapping_tag_keeps_attempt:
  assumes "twoPointConversionState s = Some Attempting" "twoPointConversionTeam s = Some X"
    and "arg_twoPointConversionTeam f1 = Some Y" "logEvent ord ty1 f1 s = (None, s1)"
    and "\<not> resolves ty1 f1"
    and "arg_twoPointConversionTeam f2 = None" "logEvent ord ty2 f2 s1 = (r, s2)"
  shows "twoPointConversionState s1 = Some Attempting \<and> twoPointConversionTeam s1 = Some X
     \<and> (\<exists>prev own. last (playByPlay s1) = TextEntry prev
          \<and> (\<forall>e \<in> set own. ev_text e \<noteq> ''Two point conversion failed'')
          \<and> playByPlay s2 =
              playByPlay s1 @
                map TextEntry
                  ([\<lparr>ev_type = ''text'', ev_text = ''Two point conversion failed'',
                     ev_t = Some X, ev_time = ev_time prev,
                     ev_quarter = ev_quarter prev\<rparr>] @ own)
          \<and> scoringSummary s2 =
              scoringSummary s1 @
                [\<lparr>ev_type = ''text'', ev_text = ''Two point conversion failed'',
                  ev_t = Some X, ev_time = ev_time prev, ev_quarter = ev_quarter prev\<rparr>] @
                (if scoreAffecting ty2 f2 then own else []))"
proof -
  note st = tagged_step [OF assms(4) assms(3)]
  have state: "twoPointConversionState s1 = Some Attempting"
    using st(1) assms(1,5) by simp
  have team: "twoPointConversionTeam s1 = Some X"
    using st(2) assms(1,2) by simp
  from success_last_entry [OF assms(4)] obtain prev where
    prev: "playByPlay s1 \<noteq> []" "last (playByPlay s1) = TextEntry prev"
      "ev_quarter prev = quarter s1"
    by blast
  from untagged_call [OF assms(6,7)] obtain own where
    own: "\<forall>e \<in> set own. ev_text e \<noteq> ''Two point conversion failed''"
      "playByPlay s2 = playByPlay s1 @ map TextEntry (closing f2 s1 @ own)"
      "scoringSummary s2 = scoringSummary s1 @ closing f2 s1 @ (if scoreAffecting ty2 f2 then own else [])"
    by blast
  have closing: "closing f2 s1 =
       [\<lparr>ev_type = ''text'', ev_text = ''Two point conversion failed'',
              ev_t = Some X, ev_time = ev_time prev, ev_quarter = ev_quarter prev\<rparr>]"
    using assms(6) state team prev by (simp add: closing_def failedEntry_def)
  show ?thesis
    using state team own prev(2) unfolding closing
    by (intro conjI exI [of _ own] exI [of _ prev]) simp_all
qed

theorem overlapping_tag_keeps_attempt_witness:
  "twoPointConversionState attemptLogger = Some Attempting
   \<and> twoPointConversionTeam attemptLogger = Some 0
   \<and> arg_twoPointConversionTeam otherTagRun = Some 1
   \<and> logEvent ordinal ''run'' otherTagRun attemptLogger = (None, overlapLogger)
   \<and> \<not> resolves ''run'' otherTagRun
   \<and> arg_twoPointConversionTeam nextDropback = None
   \<and> logEvent ordinal ''dropback'' nextDropback overlapLogger = (None, closedLogger)
   \<and> twoPointConversionState overlapLogger = Some Attempting
   \<and> twoPointConversionTeam overlapLogger = Some 0
   \<and> map ev_t (scoringSummary closedLogger) = [Some 0]"
proof -
  have h1: "twoPointConversionState attemptLogger = Some Attempting" by code_simp
  have h2: "twoPointConversionTeam attemptLogger = Some 0" by code_simp
  have h3: "arg_twoPointConversionTeam otherTagRun = Some 1" by code_simp
  have h4: "logEvent ordinal ''run'' otherTagRun attemptLogger = (None, overlapLogger)"
    by code_simp
  have h5: "\<not> resolves ''run'' otherTagRun" by code_simp
  have h6: "arg_twoPointConversionTeam nextDropback = None" by code_simp
  have h7: "logEvent ordinal ''dropback'' nextDropback overlapLogger = (None, closedLogger)"
    by code_simp
  from overlapping_tag_keeps_attempt [OF h1 h2 h3 h4 h5 h6 h7]
  have c: "twoPointConversionState overlapLogger = Some Attempting
     \<and> twoPointConversionTeam overlapLogger = Some 0"
    by simp
  have v: "map ev_t (scoringSummary closedLogger) = [Some 0]"
    by code_simp
  from h1 h2 h3 h4 h5 h6 h7 c v show ?thesis by (intro conjI) simp_all
qed

text \<open>
  Claim C7, as stated, fails: a call that throws after it has closed a pending attempt has
  already appended the failure entry to both logs.
\<close>

theorem failing_call_appends:
  "logEvents ordinal (constructor True) [(''run'', stoppedRun), (''injury'', noArgs)] =
     (Some (Missing ''names''),
      \<lparr>active = True,
       playByPlay =
         [TextEntry \<lparr>ev_type = ''text'', ev_text = ''Back rushed for 1 yards'', ev_t = Some 0,
           ev_time = Some ''12:00'', ev_quarter = ''Q1''\<rparr>,
          TextEntry \<lparr>ev_type = ''text'', ev_text = ''Two point conversion failed'', ev_t = Some 0,
           ev_time = Some ''12:00'', ev_quarter = ''Q1''\<rparr>],
       scoringSummary =
         [\<lparr>ev_type = ''text'', ev_text = ''Two point conversion failed'', ev_t = Some 0,
           ev_time = Some ''12:00'', ev_quarter = ''Q1''\<rparr>],
       twoPointConversionState = None, twoPointConversionTeam = None, quarter = ''Q1''\<rparr>)"
  by code_simp

text \<open>
  The branches of a run and of a completed pass render the yardage without the guard that
  the branches of returns, interceptions, sacks and field goals have: a run that carries
  no yardage does not fail and is narrated with "undefined" in the place of the number.
  The statement that follows leaves such calls out.
\<close>

lemma run_without_yards_is_narrated:
  "guardError ''run'' runWithoutYards = None"
  "\<not> complete ''run'' runWithoutYards"
  "logEvent ordinal ''run'' runWithoutYards (constructor True) =
     (None,
      \<lparr>active = True,
       playByPlay =
         [TextEntry \<lparr>ev_type = ''text'', ev_text = ''Back rushed for undefined yards'',
            ev_t = Some 0, ev_time = Some ''12:00'', ev_quarter = ''Q1''\<rparr>],
       scoringSummary = [], twoPointConversionState = None, twoPointConversionTeam = None,
       quarter = ''Q1''\<rparr>)"
  by code_simp+

text \<open>
  Claim C7, amended. logEvent throws when no phrasing rule matches the type or when a field
  that the type's branch guards is missing, with the error of the first such field, and it
  does not throw when the type has a phrasing rule and the call carries every field that
  the branch reads. A call that throws appends no entry for its own play; the only entry it
  can have appended, to both logs, is the failed-conversion entry of an attempt that it
  closed. Every call that does not throw appends exactly one entry for its own play to the
  narration log, with a text that is not empty, after that failed-conversion entry if there
  is one. Nothing is said of whether a call throws that lacks only a field which its branch
  reads without a guard.
\<close>

theorem logEvent_contract:
  "((case guardedFields ty of
       None \<Rightarrow> True
     | Some req \<Rightarrow> \<exists>name \<in> set req. fieldMissing f name)
    \<longrightarrow> fst (logEvent ord ty f s) \<noteq> None \<and> fst (logEvent ord ty f s) = guardError ty f)
   \<and> (complete ty f \<longrightarrow> fst (logEvent ord ty f s) = None)
   \<and> (fst (logEvent ord ty f s) \<noteq> None \<longrightarrow>
        playByPlay (snd (logEvent ord ty f s)) = playByPlay s @ map TextEntry (closing f s)
        \<and> scoringSummary (snd (logEvent ord ty f s)) = scoringSummary s @ closing f s)
   \<and> (fst (logEvent ord ty f s) = None \<longrightarrow>
        (\<exists>own. ev_text own \<noteq> []
           \<and> playByPlay (snd (logEvent ord ty f s))
               = playByPlay s @ map TextEntry (closing f s @ [own])
           \<and> scoringSummary (snd (logEvent ord ty f s)) =
               scoringSummary s @ closing f s @ (if scoreAffecting ty f then [own] else [])))"
proof -
  have res: "fst (logEvent ord ty f s) = guardError ty f"
  proof (cases "guardError ty f")
    case None
    then show ?thesis using logEvent_None [of ord ty f s] by simp
  next
    case (Some e)
    then show ?thesis using logEvent_throws [OF Some, of ord s] by simp
  qed
  have viol: "guardError ty f \<noteq> None \<longleftrightarrow>
        (case guardedFields ty of
           None \<Rightarrow> True
         | Some req \<Rightarrow> \<exists>name \<in> set req. fieldMissing f name)"
  proof (cases "guardedFields ty")
    case None
    then show ?thesis by (simp add: guardError_def)
  next
    case (Some req)
    have "filter (fieldMissing f) req \<noteq> [] \<longleftrightarrow> (\<exists>name \<in> set req. fieldMissing f name)"
      by (simp add: filter_empty_conv)
    then show ?thesis
      using Some by (cases "filter (fieldMissing f) req") (simp_all add: guardError_def)
  qed
  have 1: "fst (logEvent ord ty f s) \<noteq> None \<and> fst (logEvent ord ty f s) = guardError ty f"
    if "case guardedFields ty of
          None \<Rightarrow> True
        | Some req \<Rightarrow> \<exists>name \<in> set req. fieldMissing f name"
    using that viol res by simp
  have 2: "fst (logEvent ord ty f s) = None" if "complete ty f"
    using complete_guards [OF that] res by simp
  have 3: "playByPlay (snd (logEvent ord ty f s)) = playByPlay s @ map TextEntry (closing f s)
        \<and> scoringSummary (snd (logEvent ord ty f s)) = scoringSummary s @ closing f s"
    if "fst (logEvent ord ty f s) \<noteq> None"
  proof -
    from that res obtain e where "guardError ty f = Some e" by auto
    from logEvent_throws [OF this, of ord s] show ?thesis
      by (simp add: twoPointStep_fields)
  qed
  have 4: "\<exists>own. ev_text own \<noteq> []
           \<and> playByPlay (snd (logEvent ord ty f s))
               = playByPlay s @ map TextEntry (closing f s @ [own])
           \<and> scoringSummary (snd (logEvent ord ty f s)) =
               scoringSummary s @ closing f s @ (if scoreAffecting ty f then [own] else [])"
    if "fst (logEvent ord ty f s) = None"
  proof -
    have "guardError ty f = None" using that res by simp
    from logEvent_ok [OF this, of ord s] obtain body s' where
      r: "logEvent ord ty f s = (None, s')" "body \<noteq> []"
        "playByPlay s' = playByPlay s @ map TextEntry (closing f s @ [ownEntry f body (quarter s')])"
        "scoringSummary s' = scoringSummary s @ closing f s @
          (if scoreAffecting ty f then [ownEntry f body (quarter s')] else [])"
      by blast
    have "ev_text (ownEntry f body (quarter s')) \<noteq> []"
      using r(2) by (simp add: ownEntry_def)
    then show ?thesis using r(1,3,4) by auto
  qed
  from 1 2 3 4 show ?thesis by blast
qed

theorem logEvent_contract_witness:
  "(\<exists>name \<in> set [''names'']. fieldMissing noArgs name)
   \<and> guardedFields ''injury'' = Some [''names'']
   \<and> fst (logEvent ordinal ''injury'' noArgs attemptLogger) = Some (Missing ''names'')
   \<and> playByPlay (snd (logEvent ordinal ''injury'' noArgs attemptLogger))
       = playByPlay attemptLogger @ map TextEntry (closing noArgs attemptLogger)
   \<and> scoringSummary (snd (logEvent ordinal ''injury'' noArgs attemptLogger))
       = scoringSummary attemptLogger @ closing noArgs attemptLogger
   \<and> complete ''dropback'' nextDropback
   \<and> fst (logEvent ordinal ''dropback'' nextDropback attemptLogger) = None
   \<and> (\<exists>own. ev_text own \<noteq> []
        \<and> playByPlay (snd (logEvent ordinal ''dropback'' nextDropback attemptLogger))
            = playByPlay attemptLogger
                @ map TextEntry (closing nextDropback attemptLogger @ [own]))"
proof -
  have g: "guardedFields ''injury'' = Some [''names'']" by code_simp
  have m: "\<exists>name \<in> set [''names'']. fieldMissing noArgs name"
    by (simp add: fieldMissing_def noArgs_def)
  have e: "guardError ''injury'' noArgs = Some (Missing ''names'')" by code_simp
  have h1: "case guardedFields ''injury'' of
              None \<Rightarrow> True
            | Some req \<Rightarrow> \<exists>name \<in> set req. fieldMissing noArgs name"
    unfolding g using m by simp
  have h2: "complete ''dropback'' nextDropback" by code_simp
  note inj = logEvent_contract
    [where ord = ordinal and ty = "''injury''" and f = noArgs and s = attemptLogger]
  note drop = logEvent_contract
    [where ord = ordinal and ty = "''dropback''" and f = nextDropback and s = attemptLogger]
  have a1: "fst (logEvent ordinal ''injury'' noArgs attemptLogger) \<noteq> None
      \<and> fst (logEvent ordinal ''injury'' noArgs attemptLogger) = guardError ''injury'' noArgs"
    using inj [THEN conjunct1] h1 by (rule mp)
  have a2: "fst (logEvent ordinal ''injury'' noArgs attemptLogger) = Some (Missing ''names'')"
    using a1 e by simp
  have a3: "playByPlay (snd (logEvent ordinal ''injury'' noArgs attemptLogger))
       = playByPlay attemptLogger @ map TextEntry (closing noArgs attemptLogger)
     \<and> scoringSummary (snd (logEvent ordinal ''injury'' noArgs attemptLogger))
       = scoringSummary attemptLogger @ closing noArgs attemptLogger"
    using inj [THEN conjunct2, THEN conjunct2, THEN conjunct1] a1 [THEN conjunct1] by (rule mp)
  have b1: "fst (logEvent ordinal ''dropback'' nextDropback attemptLogger) = None"
    using drop [THEN conjunct2, THEN conjunct1] h2 by (rule mp)
  have b2: "\<exists>own. ev_text own \<noteq> []
        \<and> playByPlay (snd (logEvent ordinal ''dropback'' nextDropback attemptLogger))
            = playByPlay attemptLogger
                @ map TextEntry (closing nextDropback attemptLogger @ [own])"
    using drop [THEN conjunct2, THEN conjunct2, THEN conjunct2] b1 by blast
  from m g a2 a3 [THEN conjunct1] a3 [THEN conjunct2] h2 b1 b2 show ?thesis
    by - (intro conjI, assumption+)
qed

end
